theory Spec2Isabelle
  imports Main "HOL-Library.Log_Nat"
begin

section \<open>JavaScript values\<close>

text \<open>
  Search responses and model replies reach the agent as values produced by
  \<^verbatim>\<open>JSON.parse\<close>; the TypeScript annotations on them are casts that nothing checks.
  They are modelled as they are at run time. \<open>JUndef\<close> is \<^verbatim>\<open>undefined\<close>, the value of a
  missing property. Numbers are kept as integers: the code only tests them for being zero.
\<close>

datatype jsval =
    JUndef
  | JNull
  | JBool bool
  | JNum int
  | JStr string
  | JArr "jsval list"
  | JObj "(string \<times> jsval) list"

text \<open>Truthiness, as \<^verbatim>\<open>if (v)\<close>, \<^verbatim>\<open>v && w\<close>, \<^verbatim>\<open>v || w\<close> and \<^verbatim>\<open>filter(Boolean)\<close> test it.\<close>

fun truthy :: "jsval \<Rightarrow> bool" where
  "truthy JUndef = False"
| "truthy JNull = False"
| "truthy (JBool b) = b"
| "truthy (JNum n) = (n \<noteq> 0)"
| "truthy (JStr s) = (s \<noteq> [])"
| "truthy (JArr xs) = True"
| "truthy (JObj kvs) = True"

definition js_or :: "jsval \<Rightarrow> jsval \<Rightarrow> jsval" where
  "js_or a b = (if truthy a then a else b)"

fun nullish :: "jsval \<Rightarrow> bool" where
  "nullish JUndef = True"
| "nullish JNull = True"
| "nullish v = False"

text \<open>
  \<open>js_prop v k\<close> is \<^verbatim>\<open>v.k\<close> for a \<open>v\<close> that is not nullish (none of the property names the
  agent reads is a built-in property of a string, number, boolean or array).
  Reading a property of \<^verbatim>\<open>null\<close> or \<^verbatim>\<open>undefined\<close> raises a TypeError: every function
  below tests \<open>nullish\<close> where the source reads a property of a value that may be so.
  \<open>js_opt_member\<close> is \<^verbatim>\<open>v?.k\<close>.
\<close>

fun js_prop :: "jsval \<Rightarrow> string \<Rightarrow> jsval" where
  "js_prop (JObj kvs) k = (case map_of kvs k of None \<Rightarrow> JUndef | Some v \<Rightarrow> v)"
| "js_prop v k = JUndef"


text \<open>
  \<^verbatim>\<open>xs.slice(0, n)\<close> for an integral \<open>n\<close>: a negative \<open>n\<close> counts from the end.
\<close>

definition js_slice0 :: "int \<Rightarrow> 'a list \<Rightarrow> 'a list" where
  "js_slice0 n xs =
     take (nat (if n < 0 then max (int (length xs) + n) 0 else min n (int (length xs)))) xs"

text \<open>
  Membership in a \<^verbatim>\<open>Set\<close> compares primitives by value and objects by reference; two
  objects that come out of \<^verbatim>\<open>JSON.parse\<close> are never the same reference. The set is kept
  as the list of its members in insertion order.
\<close>

fun primitive :: "jsval \<Rightarrow> bool" where
  "primitive (JArr xs) = False"
| "primitive (JObj kvs) = False"
| "primitive v = True"

definition set_has :: "jsval list \<Rightarrow> jsval \<Rightarrow> bool" where
  "set_has vs v = (primitive v \<and> v \<in> set vs)"

definition set_add :: "jsval list \<Rightarrow> jsval \<Rightarrow> jsval list" where
  "set_add vs v = (if set_has vs v then vs else vs @ [v])"

section \<open>The environment of a run\<close>

text \<open>
  What the agent cannot decide is a parameter: the reply of the search service to the
  \<open>n\<close>-th request, the reply of the chat model to the \<open>n\<close>-th call (\<open>None\<close>: the call
  raises), what the regular expression and \<^verbatim>\<open>JSON.parse\<close> make of a reply (\<open>None\<close>:
  they raise), whether \<^verbatim>\<open>new URL(u)\<close> accepts a value, the model key the agent was built
  with, and the outcome of the one call the regular mode makes to the provider of the model
  registry (\<^verbatim>\<open>provider.chat\<close> returns the content or raises; \<^verbatim>\<open>provider.streamChat\<close>
  returns or raises).
\<close>

record axios_error =
  err_status :: "int option"
  err_message_404 :: bool
  err_body_cannot_post :: bool

datatype http_reply =
    Response int jsval
  | Failure axios_error

record env =
  axios_post :: "nat \<Rightarrow> string \<Rightarrow> http_reply"
  chat :: "nat \<Rightarrow> string option"
  parse_queries :: "string \<Rightarrow> jsval option"
  parse_learnings :: "string \<Rightarrow> jsval option"
  url_ok :: "jsval \<Rightarrow> bool"
  modelKey :: string
  provider_chat :: "string option"
  provider_streamChat :: bool

record calls =
  n_search :: nat
  n_chat :: nat

section \<open>UnifiedResearchAgent: search, planning, distilling\<close>

record source =
  src_title :: jsval
  src_url :: jsval
  src_snippet :: jsval

record search_result =
  results :: "jsval list"
  sources :: "source list"

definition no_results :: search_result where
  "no_results = \<lparr>results = [], sources = []\<rparr>"

text \<open>The object built for one raw result by the \<^verbatim>\<open>map\<close> of \<^verbatim>\<open>searchWeb\<close>.\<close>

definition to_source :: "jsval \<Rightarrow> source" where
  "to_source r =
     \<lparr>src_title = js_or (js_prop r ''title'') (JStr ''Untitled''),
      src_url = js_or (js_prop r ''url'') (JStr ''''),
      src_snippet = js_or (js_prop r ''snippet'')
                      (js_or (js_prop r ''description'') (JStr ''''))\<rparr>"

text \<open>
  The body of the \<^verbatim>\<open>try\<close> block of \<^verbatim>\<open>searchWeb\<close>; \<open>None\<close> is an exception raised
  inside it. \<^verbatim>\<open>query.substring\<close> raises when the query is not a string, before any
  request is sent; \<^verbatim>\<open>result.title\<close> raises on a null entry of the results.
\<close>

definition searchWeb_try :: "env \<Rightarrow> calls \<Rightarrow> jsval \<Rightarrow> search_result option \<times> calls" where
  "searchWeb_try e c query =
     (case query of
        JStr q \<Rightarrow>
          (let c' = c\<lparr>n_search := n_search c + 1\<rparr> in
           case axios_post e (n_search c) q of
             Failure err \<Rightarrow> (None, c')
           | Response code d \<Rightarrow>
               (if truthy d \<and> truthy (js_prop d ''data'') then
                  (case js_prop d ''data'' of
                     JArr rs \<Rightarrow>
                       (if \<exists>r \<in> set rs. nullish r then (None, c')
                        else (Some \<lparr>results = rs,
                                    sources = filter (\<lambda>s. truthy (src_url s))
                                                (map to_source rs)\<rparr>, c'))
                   | _ \<Rightarrow> (Some no_results, c'))
                else (Some no_results, c')))
      | _ \<Rightarrow> (None, c))"

definition searchWeb :: "env \<Rightarrow> calls \<Rightarrow> jsval \<Rightarrow> search_result \<times> calls" where
  "searchWeb e c query =
     (case searchWeb_try e c query of
        (None, c') \<Rightarrow> (no_results, c')
      | (Some r, c') \<Rightarrow> (r, c'))"

definition fallback_query :: "jsval \<Rightarrow> jsval" where
  "fallback_query query =
     JObj [(''query'', query),
           (''researchGoal'', JStr ''Directly answering the user's original query'')]"

text \<open>
  The inner \<^verbatim>\<open>try\<close> of \<^verbatim>\<open>generateSerpQueries\<close>, on the text the model returned.
  The arguments of the logging call are evaluated before it, so
  \<^verbatim>\<open>queries.map(q => q.query)\<close> raises on a null entry of the sliced array.
\<close>

definition parse_serp_queries :: "env \<Rightarrow> string \<Rightarrow> int \<Rightarrow> jsval list option" where
  "parse_serp_queries e txt numQueries =
     (case parse_queries e txt of
        None \<Rightarrow> None
      | Some parsed \<Rightarrow>
          (if truthy parsed then
             (case js_prop parsed ''queries'' of
                JArr qs \<Rightarrow>
                  (let queries = js_slice0 numQueries qs in
                   if \<exists>q \<in> set queries. nullish q then None else Some queries)
              | _ \<Rightarrow> None)
           else None))"

definition generateSerpQueries ::
  "env \<Rightarrow> calls \<Rightarrow> jsval \<Rightarrow> int \<Rightarrow> jsval list \<Rightarrow> jsval list \<times> calls" where
  "generateSerpQueries e c query numQueries learnings =
     (case query of
        JStr q \<Rightarrow>
          (let c' = c\<lparr>n_chat := n_chat c + 1\<rparr> in
           case chat e (n_chat c) of
             None \<Rightarrow> ([fallback_query query], c')
           | Some txt \<Rightarrow>
               (case parse_serp_queries e txt numQueries of
                  None \<Rightarrow> ([fallback_query query], c')
                | Some queries \<Rightarrow> (queries, c')))
      | _ \<Rightarrow> ([fallback_query query], c))"

record distilled =
  learnings :: "jsval list"
  followUpQuestions :: "jsval list"

definition nothing_distilled :: distilled where
  "nothing_distilled = \<lparr>learnings = [], followUpQuestions = []\<rparr>"

definition parse_serp_result :: "env \<Rightarrow> string \<Rightarrow> int \<Rightarrow> int \<Rightarrow> distilled option" where
  "parse_serp_result e txt numLearnings numFollowUpQuestions =
     (case parse_learnings e txt of
        None \<Rightarrow> None
      | Some parsed \<Rightarrow>
          (if truthy parsed then
             (case (js_prop parsed ''learnings'', js_prop parsed ''followUpQuestions'') of
                (JArr ls, JArr fs) \<Rightarrow>
                  Some \<lparr>learnings = js_slice0 numLearnings ls,
                        followUpQuestions = js_slice0 numFollowUpQuestions fs\<rparr>
              | _ \<Rightarrow> None)
           else None))"

text \<open>
  \<^verbatim>\<open>processSerpResult\<close>. The argument \<open>rs\<close> is whatever the caller passes for
  \<^verbatim>\<open>results\<close>. Formatting the results reads \<^verbatim>\<open>result.snippet\<close> of every entry and
  raises on a null one, before the model is called.
\<close>

definition processSerpResult ::
  "env \<Rightarrow> calls \<Rightarrow> jsval \<Rightarrow> jsval \<Rightarrow> int \<Rightarrow> int \<Rightarrow> distilled \<times> calls" where
  "processSerpResult e c query rs numLearnings numFollowUpQuestions =
     (if \<not> truthy rs then (nothing_distilled, c)
      else case rs of
        JArr xs \<Rightarrow>
          (if xs = [] then (nothing_distilled, c)
           else if \<exists>x \<in> set xs. nullish x then (nothing_distilled, c)
           else
             (let c' = c\<lparr>n_chat := n_chat c + 1\<rparr> in
              case chat e (n_chat c) of
                None \<Rightarrow> (nothing_distilled, c')
              | Some txt \<Rightarrow>
                  (case parse_serp_result e txt numLearnings numFollowUpQuestions of
                     None \<Rightarrow> (nothing_distilled, c')
                   | Some d \<Rightarrow> (d, c'))))
      | _ \<Rightarrow> (nothing_distilled, c))"

section \<open>IEEE doubles for the progress formula\<close>

text \<open>
  Every JavaScript number is an IEEE 754 binary64 value and every arithmetic operation
  rounds its exact result to the nearest one, ties to even. \<open>to_double\<close> is that rounding
  on the exact rational result, for results in the normal range (no overflow, no
  subnormals: the progress formula stays between \<open>2\<^sup>-\<^sup>1\<^sup>0\<^sup>0\<^sup>0\<close> and \<open>128\<close>).
\<close>

definition pow2 :: "int \<Rightarrow> rat" where
  "pow2 k = (if 0 \<le> k then 2 ^ nat k else 1 / 2 ^ nat (- k))"

definition ilog2 :: "rat \<Rightarrow> int" where
  "ilog2 x =
     (let (a, b) = quotient_of x;
          e0 = bitlen a - bitlen b
      in if pow2 e0 \<le> x then e0 else e0 - 1)"

definition round_half_even :: "rat \<Rightarrow> int" where
  "round_half_even y =
     (let f = \<lfloor>y\<rfloor>; r = y - of_int f
      in if r < 1 / 2 then f else if 1 / 2 < r then f + 1
         else if even f then f else f + 1)"

definition to_double :: "rat \<Rightarrow> rat" where
  "to_double x =
     (if x = 0 then 0
      else let a = \<bar>x\<bar>; u = pow2 (ilog2 a - 52)
           in sgn x * of_int (round_half_even (a / u)) * u)"

definition fadd :: "rat \<Rightarrow> rat \<Rightarrow> rat" where
  "fadd a b = to_double (a + b)"

definition fmul :: "rat \<Rightarrow> rat \<Rightarrow> rat" where
  "fmul a b = to_double (a * b)"

definition fdiv :: "rat \<Rightarrow> rat \<Rightarrow> rat" where
  "fdiv a b = to_double (a / b)"

text \<open>
  \<^verbatim>\<open>Math.floor(Math.min(90, 20 + (70 * ((currentDepth - 1) / depth +
  completedQueries / totalQueries / depth))))\<close>, evaluated as JavaScript evaluates it.
\<close>

definition overallProgress :: "int \<Rightarrow> int \<Rightarrow> nat \<Rightarrow> nat \<Rightarrow> int" where
  "overallProgress cd depth completed queries =
     \<lfloor>min 90 (fadd 20 (fmul 70
        (fadd (fdiv (of_int (cd - 1)) (of_int depth))
              (fdiv (fdiv (of_nat completed) (of_nat queries)) (of_int depth)))))\<rfloor>"

section \<open>The stream of a run\<close>

text \<open>
  A frame is one string the generator yields. Its text is kept as the data it is made
  from: the wording of a reasoning trace is a constructor of \<open>trace\<close>, with the values the
  template interpolates. Timings are left out.
\<close>

datatype trace =
    TrStart string int int
  | TrDeepIntro
  | TrPreparing
  | TrLevel int int nat
  | TrSubQuestion jsval nat nat int
  | TrGenerating
  | TrGenerated nat
  | TrSearching jsval nat nat
  | TrGoal jsval
  | TrFound nat jsval
  | TrExtracting
  | TrExtracted nat
  | TrFollowUps nat
  | TrUnitError jsval
  | TrTopicError jsval
  | TrWebSearch string
  | TrFoundResults nat
  | TrLookupFailed
  | TrAnalyzed
  | TrGeneratingReport
  | TrReportGenerated

datatype report_text =
    ModelText string
  | FinalFallback string "jsval list" "source list"
  | PartialReport string "jsval list" "jsval list"
  | ReportError string

datatype error_content =
    ErrGenerating
  | ErrFailedResults
  | ErrDeep nat
  | ErrUnhandled

datatype search_text =
    Formatted "jsval list"
  | LookupFailed

datatype frame =
    ReasoningTrace trace
  | ProgressFrame int
  | SearchResults search_text
  | SourceUpdate jsval source
  | Sources "source list"
  | Learnings "jsval list"
  | ContentChunk string
  | Content report_text
  | Complete
  | ErrorFrame error_content

datatype status =
    StInitializing
  | StDepth int int
  | StNode jsval int int
  | StUnit nat nat jsval
  | StFinalReport
  | StComplete

record progress_data =
  currentDepth :: int
  totalDepth :: int
  currentBreadth :: int
  totalBreadth :: int
  completedQueries :: nat
  totalQueries :: nat
  currentQuery :: jsval
  progress :: int
  status :: status

text \<open>
  The agent reports progress by calling the callback it was built with; the route's
  callback writes a progress frame to the same stream and catches its own errors, so a
  report never raises. The log of a run holds, in order, what the generator yields and
  what the callback is called with. A deep report is tagged with the place of the call.
\<close>

datatype site = AtLevel | AtNode | AtUnitStart | AtUnitDone | AtFinal | AtComplete

datatype event =
    Yield frame
  | DeepReport site progress_data
  | RegularReport int

definition traces :: "trace list \<Rightarrow> event list" where
  "traces ts = map (\<lambda>t. Yield (ReasoningTrace t)) ts"

section \<open>Deep research\<close>

record node =
  node_query :: jsval
  node_depth :: int

record deep_state =
  allLearnings :: "jsval list"
  visitedQueries :: "jsval list"
  visitedUrls :: "jsval list"
  allSources :: "source list"
  progressData :: progress_data
  queriesToProcess :: "node list"
  events :: "event list"
  ncalls :: calls

datatype unit_result =
    UnitOk "trace list" "jsval list" "node list"
  | UnitFailed "trace list"
  | UnitRejected

text \<open>
  The end of a unit that did not raise: \<^verbatim>\<open>completedQueries++\<close>, the progress formula and
  the report. No \<^verbatim>\<open>await\<close> stands between these statements, so no other unit runs
  between them.
\<close>

definition unit_done ::
  "int \<Rightarrow> int \<Rightarrow> trace list \<Rightarrow> jsval list \<Rightarrow> node list \<Rightarrow> deep_state
     \<Rightarrow> unit_result \<times> deep_state" where
  "unit_done depth cd ts ls fs st =
     (let pd = progressData st;
          c = completedQueries pd + 1;
          pd' = pd\<lparr>completedQueries := c,
                   progress := overallProgress cd depth c (totalQueries pd)\<rparr>
      in (UnitOk ts ls fs,
          st\<lparr>progressData := pd', events := events st @ [DeepReport AtUnitDone pd']\<rparr>))"

text \<open>
  One search and distill unit, the function handed to the limiter for the generated query
  \<open>g\<close> at position \<open>index\<close> of \<open>n\<close>. An exception inside its \<^verbatim>\<open>try\<close> gives \<open>UnitFailed\<close>
  with the changes made so far kept. When \<open>g\<close> itself is null, the third statement of the
  \<^verbatim>\<open>try\<close> raises on \<^verbatim>\<open>genQuery.query\<close>, after the two breadth fields were set; the
  handler raises again on \<^verbatim>\<open>genQuery.query\<close> and the promise is rejected.
\<close>

definition run_unit ::
  "env \<Rightarrow> int \<Rightarrow> int \<Rightarrow> jsval \<Rightarrow> nat \<Rightarrow> nat \<Rightarrow> deep_state \<Rightarrow> unit_result \<times> deep_state" where
  "run_unit e depth cd g index n st =
     (if nullish g then
        (UnitRejected,
         st\<lparr>progressData := (progressData st)\<lparr>currentBreadth := int index + 1,
                                                totalBreadth := int n\<rparr>\<rparr>)
      else
        let q = js_prop g ''query'';
            pd1 = (progressData st)\<lparr>currentBreadth := int index + 1, totalBreadth := int n,
                                     currentQuery := q, status := StUnit (index + 1) n q\<rparr>;
            st1 = st\<lparr>progressData := pd1,
                     events := events st @ [DeepReport AtUnitStart pd1]\<rparr>;
            ts1 = [TrSearching q (index + 1) n, TrGoal (js_prop g ''researchGoal'')];
            (sr, c2) = searchWeb e (ncalls st1) q;
            numResults = length (results sr);
            ts2 = ts1 @ [TrFound numResults q];
            st2 = st1\<lparr>ncalls := c2,
                      visitedUrls := foldl set_add (visitedUrls st1)
                          (map src_url (filter (\<lambda>s. truthy (src_url s)) (sources sr))),
                      allSources := allSources st1 @ sources sr\<rparr>
        in if 0 < numResults then
             let (d, c3) = processSerpResult e (ncalls st2) q (JArr (results sr)) 5 3;
                 st3 = st2\<lparr>ncalls := c3\<rparr>;
                 ts3 = ts2 @ [TrExtracting] @
                       (if learnings d \<noteq> [] then [TrExtracted (length (learnings d))] else [])
             in if followUpQuestions d \<noteq> [] \<and> cd < depth then
                  (if \<exists>f \<in> set (followUpQuestions d). nullish f
                   then (UnitFailed [TrUnitError q], st3)
                   else unit_done depth cd
                          (ts3 @ [TrFollowUps (length (followUpQuestions d))])
                          (learnings d)
                          (map (\<lambda>f. \<lparr>node_query = js_prop f ''query'', node_depth = cd + 1\<rparr>)
                               (followUpQuestions d))
                          st3)
                else unit_done depth cd ts3 (learnings d) [] st3
           else unit_done depth cd ts2 [] [] st2)"

text \<open>
  The units of one node. The limiter admits two at a time and they interleave at their
  \<^verbatim>\<open>await\<close>s; \<^verbatim>\<open>Promise.all\<close> returns their results in submission order. The units share
  only the two sets, the source list and the progress record; what a unit computes does
  not depend on them, and the environment fixes each reply by its request number, so the
  units are run here one after the other, in submission order. A rejected promise rejects
  \<^verbatim>\<open>Promise.all\<close>: \<open>None\<close>, and the units after it are not followed any further. That
  branch is never taken in a run: the planner returns no null entry
  (\<open>generateSerpQueries_entries\<close>, \<open>run_units_complete\<close> below).
\<close>

fun run_units ::
  "env \<Rightarrow> int \<Rightarrow> int \<Rightarrow> nat \<Rightarrow> nat \<Rightarrow> jsval list \<Rightarrow> deep_state
     \<Rightarrow> unit_result list option \<times> deep_state" where
  "run_units e depth cd n index [] st = (Some [], st)"
| "run_units e depth cd n index (g # gs) st =
     (case run_unit e depth cd g index n st of
        (UnitRejected, st') \<Rightarrow> (None, st')
      | (r, st') \<Rightarrow>
          (case run_units e depth cd n (index + 1) gs st' of
             (None, st'') \<Rightarrow> (None, st'')
           | (Some rs, st'') \<Rightarrow> (Some (r # rs), st'')))"

text \<open>The loop over the results of the units: traces, learnings, follow-ups.\<close>

fun collect :: "unit_result list \<Rightarrow> deep_state \<Rightarrow> deep_state" where
  "collect [] st = st"
| "collect (UnitOk ts ls fs # rs) st =
     collect rs
       (st\<lparr>allLearnings := allLearnings st @ ls,
           queriesToProcess := queriesToProcess st @ fs,
           events := events st @ traces ts @ (if ls \<noteq> [] then [Yield (Learnings ls)] else [])\<rparr>)"
| "collect (UnitFailed ts # rs) st =
     collect rs (st\<lparr>events := events st @ traces ts\<rparr>)"
| "collect (UnitRejected # rs) st = collect rs st"

text \<open>The body of the loop over the nodes of a level, for the node at position \<open>i\<close> of \<open>n\<close>.\<close>

definition process_node ::
  "env \<Rightarrow> int \<Rightarrow> int \<Rightarrow> int \<Rightarrow> nat \<Rightarrow> nat \<Rightarrow> node \<Rightarrow> deep_state \<Rightarrow> deep_state" where
  "process_node e depth breadth cd n i nd st =
     (let currentQuery = node_query nd in
      if set_has (visitedQueries st) currentQuery then st
      else
        let pd1 = (progressData st)\<lparr>currentQuery := currentQuery,
                                     status := StNode currentQuery cd depth\<rparr>;
            st1 = st\<lparr>visitedQueries := set_add (visitedQueries st) currentQuery,
                     progressData := pd1,
                     events := events st @
                       [DeepReport AtNode pd1,
                        Yield (ReasoningTrace (TrSubQuestion currentQuery (i + 1) n cd)),
                        Yield (ReasoningTrace TrGenerating)]\<rparr>;
            (generatedQueries, c) =
               generateSerpQueries e (ncalls st1) currentQuery breadth (allLearnings st1);
            pd2 = (progressData st1)\<lparr>totalQueries :=
                     totalQueries (progressData st1) + length generatedQueries\<rparr>;
            st2 = st1\<lparr>ncalls := c, progressData := pd2,
                      events := events st1 @
                        [Yield (ReasoningTrace (TrGenerated (length generatedQueries)))]\<rparr>
        in case run_units e depth cd (length generatedQueries) 0 generatedQueries st2 of
             (None, st3) \<Rightarrow>
               st3\<lparr>events := events st3 @ [Yield (ReasoningTrace (TrTopicError currentQuery))]\<rparr>
           | (Some rs, st3) \<Rightarrow> collect rs st3)"

fun process_level ::
  "env \<Rightarrow> int \<Rightarrow> int \<Rightarrow> int \<Rightarrow> nat \<Rightarrow> nat \<Rightarrow> node list \<Rightarrow> deep_state \<Rightarrow> deep_state" where
  "process_level e depth breadth cd n i [] st = st"
| "process_level e depth breadth cd n i (nd # nds) st =
     process_level e depth breadth cd n (i + 1) nds
       (process_node e depth breadth cd n i nd st)"

text \<open>
  The \<^verbatim>\<open>while\<close> loop: all nodes of the current depth are taken out of the queue and
  processed, then the depth advances.
\<close>

function deep_loop :: "env \<Rightarrow> int \<Rightarrow> int \<Rightarrow> int \<Rightarrow> deep_state \<Rightarrow> deep_state" where
  "deep_loop e depth breadth cd st =
     (if queriesToProcess st \<noteq> [] \<and> cd \<le> depth then
        let currentLevelQueries = filter (\<lambda>q. node_depth q = cd) (queriesToProcess st);
            pd = (progressData st)\<lparr>currentDepth := cd, status := StDepth cd depth\<rparr>;
            st1 = st\<lparr>queriesToProcess := filter (\<lambda>q. cd < node_depth q) (queriesToProcess st),
                     progressData := pd,
                     events := events st @
                       [DeepReport AtLevel pd,
                        Yield (ReasoningTrace
                                 (TrLevel cd depth (length currentLevelQueries)))]\<rparr>
        in deep_loop e depth breadth (cd + 1)
             (process_level e depth breadth cd (length currentLevelQueries) 0
                currentLevelQueries st1)
      else st)"
  by pat_completeness auto
termination
  by (relation "measure (\<lambda>(e, depth, breadth, cd, st). nat (depth + 1 - cd))") auto

declare deep_loop.simps [simp del]

definition generateFinalReport ::
  "env \<Rightarrow> calls \<Rightarrow> string \<Rightarrow> jsval list \<Rightarrow> source list \<Rightarrow> report_text \<times> calls" where
  "generateFinalReport e c query ls srcs =
     (case chat e (n_chat c) of
        None \<Rightarrow> (FinalFallback query ls srcs, c\<lparr>n_chat := n_chat c + 1\<rparr>)
      | Some txt \<Rightarrow> (ModelText txt, c\<lparr>n_chat := n_chat c + 1\<rparr>))"

definition initial_deep_state :: "string \<Rightarrow> int \<Rightarrow> int \<Rightarrow> deep_state" where
  "initial_deep_state query depth breadth =
     \<lparr>allLearnings = [], visitedQueries = [], visitedUrls = [], allSources = [],
      progressData =
        \<lparr>currentDepth = 0, totalDepth = depth, currentBreadth = 0, totalBreadth = breadth,
         completedQueries = 0, totalQueries = 0, currentQuery = JStr '''', progress = 0,
         status = StInitializing\<rparr>,
      queriesToProcess = [\<lparr>node_query = JStr query, node_depth = 1\<rparr>],
      events = traces [TrStart query depth breadth, TrDeepIntro, TrPreparing],
      ncalls = \<lparr>n_search = 0, n_chat = 0\<rparr>\<rparr>"

text \<open>The run with the clamped bounds: the loop, then the final report.\<close>

definition deep_run :: "env \<Rightarrow> string \<Rightarrow> int \<Rightarrow> int \<Rightarrow> deep_state" where
  "deep_run e query depth breadth =
     (let st = deep_loop e depth breadth 1 (initial_deep_state query depth breadth);
          pd1 = (progressData st)\<lparr>status := StFinalReport, progress := 90\<rparr>;
          (finalReport, c) =
             generateFinalReport e (ncalls st) query (allLearnings st) (allSources st);
          pd2 = pd1\<lparr>status := StComplete, progress := 100\<rparr>
      in st\<lparr>progressData := pd2, ncalls := c,
             events := events st @
               [DeepReport AtFinal pd1, Yield (Content finalReport), DeepReport AtComplete pd2]\<rparr>)"

record research_options =
  opt_depth :: int
  opt_breadth :: int

text \<open>
  \<^verbatim>\<open>doDeepResearch\<close>. Every helper it awaits catches its own exceptions and the
  callback does not raise, so no statement of its \<^verbatim>\<open>try\<close> block raises and the run is
  the run of \<open>deep_run\<close>. Its \<^verbatim>\<open>catch\<close> block is \<open>deep_catch\<close>, given the state at the
  point of an exception.
\<close>

definition doDeepResearch :: "env \<Rightarrow> string \<Rightarrow> research_options \<Rightarrow> deep_state" where
  "doDeepResearch e query options =
     (let depth = min (max 1 (opt_depth options)) 5;
          breadth = min (max 2 (opt_breadth options)) 5
      in deep_run e query depth breadth)"


section \<open>Regular research and the entry point\<close>














section \<open>LangChainAgent: the search client with retries\<close>























section \<open>Observations on a log and invariants of a deep run\<close>

text \<open>
  The number of generated queries announced so far (the sum over the frames
  ``Generated \<open>n\<close> search queries'') and the number of units that have reported their
  completion.
\<close>

fun generated :: "event list \<Rightarrow> nat" where
  "generated [] = 0"
| "generated (Yield (ReasoningTrace (TrGenerated n)) # evs) = n + generated evs"
| "generated (ev # evs) = generated evs"

fun completed_units :: "event list \<Rightarrow> nat" where
  "completed_units [] = 0"
| "completed_units (DeepReport AtUnitDone pd # evs) = Suc (completed_units evs)"
| "completed_units (ev # evs) = completed_units evs"

text \<open>The traces a unit may collect, and the events the loop of a deep run may log.\<close>

fun quiet_trace :: "trace \<Rightarrow> bool" where
  "quiet_trace (TrSubQuestion q i n d) = False"
| "quiet_trace (TrGenerated n) = False"
| "quiet_trace t = True"

fun event_ok :: "int \<Rightarrow> int \<Rightarrow> event \<Rightarrow> bool" where
  "event_ok D B (Yield (ReasoningTrace (TrSubQuestion q i n d))) = (1 \<le> d \<and> d \<le> D)"
| "event_ok D B (Yield (ReasoningTrace (TrGenerated n))) = (int n \<le> B)"
| "event_ok D B (Yield (ReasoningTrace t)) = True"
| "event_ok D B (Yield (Learnings ls)) = True"
| "event_ok D B (Yield f) = False"
| "event_ok D B (DeepReport s pd) = True"
| "event_ok D B (RegularReport p) = False"

fun result_ok :: "int \<Rightarrow> int \<Rightarrow> unit_result \<Rightarrow> bool" where
  "result_ok D cd (UnitOk ts ls fs) =
     (list_all quiet_trace ts \<and> list_all (\<lambda>f. node_depth f = cd + 1) fs \<and> (fs = [] \<or> cd < D))"
| "result_ok D cd (UnitFailed ts) = list_all quiet_trace ts"
| "result_ok D cd UnitRejected = True"

text \<open>
  What a completion report must say, given the log \<open>pre\<close> written before it; and a log
  all of whose completion reports say it.
\<close>

definition unit_report_ok :: "int \<Rightarrow> event list \<Rightarrow> progress_data \<Rightarrow> bool" where
  "unit_report_ok D pre pd =
     (progress pd = overallProgress (currentDepth pd) D (completedQueries pd) (totalQueries pd) \<and>
      totalDepth pd = D \<and> 1 \<le> currentDepth pd \<and> currentDepth pd \<le> D \<and>
      totalQueries pd = generated pre \<and>
      completedQueries pd = Suc (completed_units pre) \<and>
      completedQueries pd \<le> totalQueries pd)"

definition well_reported :: "int \<Rightarrow> event list \<Rightarrow> bool" where
  "well_reported D evs =
     (\<forall>pre pd post. evs = pre @ DeepReport AtUnitDone pd # post \<longrightarrow> unit_report_ok D pre pd)"

text \<open>
  The invariant of the log and the counters, and the invariant inside level \<open>cd\<close> when
  \<open>k\<close> units announced by the planner have not yet finished.
\<close>

definition log_inv :: "int \<Rightarrow> int \<Rightarrow> deep_state \<Rightarrow> bool" where
  "log_inv D B st =
     (totalDepth (progressData st) = D \<and>
      totalQueries (progressData st) = generated (events st) \<and>
      completedQueries (progressData st) = completed_units (events st) \<and>
      list_all (event_ok D B) (events st) \<and> well_reported D (events st) \<and>
      distinct (filter primitive (visitedUrls st)))"

definition unit_inv :: "int \<Rightarrow> int \<Rightarrow> int \<Rightarrow> nat \<Rightarrow> deep_state \<Rightarrow> bool" where
  "unit_inv D B cd k st =
     (log_inv D B st \<and> currentDepth (progressData st) = cd \<and> 1 \<le> cd \<and> cd \<le> D \<and>
      completedQueries (progressData st) + k \<le> totalQueries (progressData st) \<and>
      list_all (\<lambda>nd. node_depth nd = cd + 1 \<and> cd < D) (queriesToProcess st))"

definition loop_inv :: "int \<Rightarrow> int \<Rightarrow> int \<Rightarrow> deep_state \<Rightarrow> bool" where
  "loop_inv D B cd st =
     (log_inv D B st \<and> 1 \<le> cd \<and>
      completedQueries (progressData st) \<le> totalQueries (progressData st) \<and>
      list_all (\<lambda>nd. node_depth nd = cd \<and> cd \<le> D) (queriesToProcess st))"

section \<open>Example environments\<close>

text \<open>
  Concrete environments on which the definitions are evaluated. In \<open>env_down\<close> every
  service fails: the search service answers 429 and every model call raises.
\<close>

definition rate_limited :: axios_error where
  "rate_limited = \<lparr>err_status = Some 429, err_message_404 = False, err_body_cannot_post = False\<rparr>"

definition env_down :: env where
  "env_down =
     \<lparr>axios_post = (\<lambda>n q. Failure rate_limited), chat = (\<lambda>n. None),
      parse_queries = (\<lambda>txt. None), parse_learnings = (\<lambda>txt. None),
      url_ok = (\<lambda>u. False), modelKey = ''deepseek-r1'',
      provider_chat = None, provider_streamChat = False\<rparr>"

definition c0 :: calls where
  "c0 = \<lparr>n_search = 0, n_chat = 0\<rparr>"

text \<open>
  A search answer with three results: one with a title and a URL, one without a URL, one
  with a URL and no title.
\<close>

definition three_results :: "jsval list" where
  "three_results =
     [JObj [(''title'', JStr ''A''), (''url'', JStr ''https://a.example/'')],
      JObj [(''title'', JStr ''B'')],
      JObj [(''url'', JStr ''https://c.example/'')]]"

definition env_three :: env where
  "env_three =
     env_down\<lparr>axios_post := (\<lambda>n q. Response 200 (JObj [(''data'', JArr three_results)])),
               url_ok := (\<lambda>u. True)\<rparr>"

text \<open>A planner reply that parses to an object whose \<^verbatim>\<open>queries\<close> array is empty.\<close>

definition env_no_queries :: env where
  "env_no_queries =
     env_down\<lparr>chat := (\<lambda>n. Some ''{ queries: [] }''),
               parse_queries := (\<lambda>txt. Some (JObj [(''queries'', JArr [])]))\<rparr>"

text \<open>A planner reply that is prose, on which \<^verbatim>\<open>JSON.parse\<close> raises.\<close>

definition env_prose :: env where
  "env_prose = env_down\<lparr>chat := (\<lambda>n. Some ''Here are some ideas.'')\<rparr>"

text \<open>
  A distiller reply with seven learnings and four follow-up questions, on the search
  answer of \<open>env_three\<close>.
\<close>

definition env_distill :: env where
  "env_distill =
     env_three\<lparr>chat := (\<lambda>n. Some ''seven learnings, four questions''),
                parse_learnings := (\<lambda>txt. Some (JObj
                  [(''learnings'', JArr (map JNum [1, 2, 3, 4, 5, 6, 7])),
                   (''followUpQuestions'',
                      JArr (map (\<lambda>n. JObj [(''query'', JNum n)]) [1, 2, 3, 4]))]))\<rparr>"




text \<open>
  A run in which everything answers: the planner returns two queries, the search returns
  the three results, and the distiller returns two learnings and one follow-up question.
\<close>

definition env_up :: env where
  "env_up =
     env_three\<lparr>chat := (\<lambda>n. Some ''reply''),
              parse_queries := (\<lambda>reply. Some (JObj [(''queries'',
                 JArr [JObj [(''query'', JStr ''first''), (''researchGoal'', JStr ''one'')],
                       JObj [(''query'', JStr ''second''), (''researchGoal'', JStr ''two'')]])])),
              parse_learnings := (\<lambda>reply. Some (JObj
                 [(''learnings'', JArr [JStr ''fact 1'', JStr ''fact 2'']),
                  (''followUpQuestions'', JArr [JObj [(''query'', JStr ''why'')]])])),
              provider_chat := Some ''answer''\<rparr>"

definition two_by_two :: research_options where
  "two_by_two = \<lparr>opt_depth = 2, opt_breadth = 2\<rparr>"




section \<open>Properties of the helpers\<close>

lemma length_js_slice0: "0 \<le> n \<Longrightarrow> int (length (js_slice0 n xs)) \<le> n"
  by (simp add: js_slice0_def)

lemma length_js_slice0_le: "length (js_slice0 n xs) \<le> length xs"
  by (simp add: js_slice0_def)

lemma generateSerpQueries_count:
  assumes "1 \<le> numQueries"
  shows "int (length (fst (generateSerpQueries e c query numQueries ls))) \<le> numQueries"
  using assms length_js_slice0 [of numQueries]
  by (auto simp: generateSerpQueries_def parse_serp_queries_def Let_def
           split: jsval.splits option.splits if_splits)

lemma js_slice0_Nil_iff: "1 \<le> n \<Longrightarrow> js_slice0 n xs = [] \<longleftrightarrow> xs = []"
  by (cases xs) (auto simp: js_slice0_def min_def)

lemma src_title_to_source:
  "src_title (to_source r) =
     (if truthy (js_prop r ''title'') then js_prop r ''title'' else JStr ''Untitled'')"
  by (simp add: to_source_def js_or_def)

subsection \<open>Search\<close>

text \<open>
  C10. \<^verbatim>\<open>UnifiedResearchAgent.searchWeb\<close> never raises: it is a total function whose every
  exception (\<open>searchWeb_try\<close> giving \<open>None\<close>) becomes the empty result. It returns the empty
  result when the query is not a string, when the request fails, when the response has no
  \<^verbatim>\<open>data\<close> array and when an entry of the array is null. Every source it returns has a
  truthy (for a string: non-empty) URL, the sources are the results that have a URL, in
  order, and the title of a source is the title of its result, or \<^verbatim>\<open>'Untitled'\<close> when the
  result has none.
\<close>

theorem searchWeb_never_raises_sources_have_url:
  "(fst (searchWeb_try e c query) = None \<longrightarrow> fst (searchWeb e c query) = no_results) \<and>
   ((\<forall>q. query \<noteq> JStr q) \<longrightarrow> searchWeb e c query = (no_results, c)) \<and>
   (query = JStr q \<and> axios_post e (n_search c) q = Failure err
      \<longrightarrow> fst (searchWeb e c query) = no_results) \<and>
   (query = JStr q \<and> axios_post e (n_search c) q = Response code d \<and>
      (\<forall>rs. js_prop d ''data'' \<noteq> JArr rs)
      \<longrightarrow> fst (searchWeb e c query) = no_results) \<and>
   (query = JStr q \<and> axios_post e (n_search c) q = Response code d \<and>
      js_prop d ''data'' = JArr rs \<and> (\<exists>r \<in> set rs. nullish r)
      \<longrightarrow> fst (searchWeb e c query) = no_results) \<and>
   (\<forall>s \<in> set (sources (fst (searchWeb e c query))). truthy (src_url s)) \<and>
   sources (fst (searchWeb e c query)) =
     filter (\<lambda>s. truthy (src_url s)) (map to_source (results (fst (searchWeb e c query)))) \<and>
   (\<forall>r. src_title (to_source r) =
      (if truthy (js_prop r ''title'') then js_prop r ''title'' else JStr ''Untitled''))"
proof -
  have shape: "sources (fst (searchWeb e c query)) =
     filter (\<lambda>s. truthy (src_url s)) (map to_source (results (fst (searchWeb e c query))))"
    by (auto simp: searchWeb_def searchWeb_try_def no_results_def Let_def
             split: jsval.splits http_reply.splits)
  have urls: "\<forall>s \<in> set (sources (fst (searchWeb e c query))). truthy (src_url s)"
    by (subst shape) simp
  have raised: "fst (searchWeb_try e c query) = None \<longrightarrow> fst (searchWeb e c query) = no_results"
    by (cases "searchWeb_try e c query") (auto simp: searchWeb_def)
  have modes:
    "(\<forall>q. query \<noteq> JStr q) \<longrightarrow> searchWeb e c query = (no_results, c)"
    "query = JStr q \<and> axios_post e (n_search c) q = Failure err
       \<longrightarrow> fst (searchWeb e c query) = no_results"
    "query = JStr q \<and> axios_post e (n_search c) q = Response code d \<and>
       (\<forall>rs. js_prop d ''data'' \<noteq> JArr rs) \<longrightarrow> fst (searchWeb e c query) = no_results"
    "query = JStr q \<and> axios_post e (n_search c) q = Response code d \<and>
       js_prop d ''data'' = JArr rs \<and> (\<exists>r \<in> set rs. nullish r)
       \<longrightarrow> fst (searchWeb e c query) = no_results"
    by (auto simp: searchWeb_def searchWeb_try_def no_results_def Let_def
             split: jsval.splits http_reply.splits)
  from raised modes urls shape src_title_to_source show ?thesis
    by blast
qed

theorem searchWeb_never_raises_sources_have_url_witness:
  "fst (searchWeb env_down c0 (JStr ''solar power'')) = no_results \<and>
   searchWeb env_down c0 JUndef = (no_results, c0) \<and>
   sources (fst (searchWeb env_three c0 (JStr ''solar power''))) =
     [\<lparr>src_title = JStr ''A'', src_url = JStr ''https://a.example/'', src_snippet = JStr ''''\<rparr>,
      \<lparr>src_title = JStr ''Untitled'', src_url = JStr ''https://c.example/'',
        src_snippet = JStr ''''\<rparr>]"
proof -
  have down: "axios_post env_down (n_search c0) ''solar power'' = Failure rate_limited"
    by (simp add: env_down_def)
  have "fst (searchWeb env_down c0 (JStr ''solar power'')) = no_results"
    using searchWeb_never_raises_sources_have_url
      [of env_down c0 "JStr ''solar power''" "''solar power''" rate_limited] down
    by simp
  moreover have "searchWeb env_down c0 JUndef = (no_results, c0)"
    using searchWeb_never_raises_sources_have_url [of env_down c0 JUndef]
    by simp
  moreover have "sources (fst (searchWeb env_three c0 (JStr ''solar power''))) =
     [\<lparr>src_title = JStr ''A'', src_url = JStr ''https://a.example/'', src_snippet = JStr ''''\<rparr>,
      \<lparr>src_title = JStr ''Untitled'', src_url = JStr ''https://c.example/'',
        src_snippet = JStr ''''\<rparr>]"
    using searchWeb_never_raises_sources_have_url [of env_three c0 "JStr ''solar power''"]
    by (simp add: searchWeb_def searchWeb_try_def env_three_def env_down_def c0_def
          three_results_def to_source_def js_or_def Let_def)
  ultimately show ?thesis
    by simp
qed

subsection \<open>Query planning\<close>

text \<open>
  C5, as the specification states it: for every topic, breadth and prior learnings,
  \<^verbatim>\<open>generateSerpQueries\<close> returns at least one and at most \<open>breadth\<close> queries. The code
  falls back to the single default query only when parsing fails. A reply that parses to
  an object with an empty \<^verbatim>\<open>queries\<close> array is returned as it is: the empty list.
\<close>

theorem generateSerpQueries_nonempty_counterexample:
  "\<not> 1 \<le> length (fst (generateSerpQueries env_no_queries c0 (JStr ''solar power'') 3 []))"
  by (simp add: generateSerpQueries_def parse_serp_queries_def env_no_queries_def env_down_def
        c0_def js_slice0_def Let_def)

text \<open>
  C5, amended: for a breadth of at least 1 the returned list has at most \<open>breadth\<close>
  entries, and it is empty exactly when the model's reply parses to an object whose
  \<^verbatim>\<open>queries\<close> array is empty; in every other case it has at least one entry.
\<close>

theorem generateSerpQueries_length:
  assumes "1 \<le> numQueries"
  shows "int (length (fst (generateSerpQueries e c query numQueries ls))) \<le> numQueries \<and>
         (fst (generateSerpQueries e c query numQueries ls) = [] \<longleftrightarrow>
            (\<exists>q txt parsed. query = JStr q \<and> chat e (n_chat c) = Some txt \<and>
               parse_queries e txt = Some parsed \<and> truthy parsed \<and>
               js_prop parsed ''queries'' = JArr []))"
proof -
  have parse: "parse_serp_queries e reply numQueries = Some qs \<Longrightarrow>
      int (length qs) \<le> numQueries \<and>
      (qs = [] \<longleftrightarrow> (\<exists>parsed. parse_queries e reply = Some parsed \<and> truthy parsed \<and>
                         js_prop parsed ''queries'' = JArr []))" for reply qs
    using assms length_js_slice0 [of numQueries]
    by (auto simp: parse_serp_queries_def Let_def js_slice0_Nil_iff
             split: option.splits if_splits jsval.splits)
  have none: "parse_serp_queries e reply numQueries = None \<Longrightarrow>
      \<not> (\<exists>parsed. parse_queries e reply = Some parsed \<and> truthy parsed \<and>
            js_prop parsed ''queries'' = JArr [])" for reply
    using assms
    by (auto simp: parse_serp_queries_def Let_def js_slice0_def
             split: option.splits if_splits jsval.splits)
  show ?thesis
  proof (cases query)
    case (JStr q)
    show ?thesis
    proof (cases "chat e (n_chat c)")
      case None
      with JStr assms show ?thesis
        by (simp add: generateSerpQueries_def)
    next
      case (Some reply)
      show ?thesis
      proof (cases "parse_serp_queries e reply numQueries")
        case None
        with JStr Some assms none [OF None] show ?thesis
          by (simp add: generateSerpQueries_def)
      next
        case (Some qs)
        with JStr \<open>chat e (n_chat c) = Some reply\<close> parse [OF Some] show ?thesis
          by (simp add: generateSerpQueries_def)
      qed
    qed
  qed (use assms in \<open>simp_all add: generateSerpQueries_def\<close>)
qed

theorem generateSerpQueries_length_witness:
  "(1::int) \<le> 3 \<and>
   fst (generateSerpQueries env_no_queries c0 (JStr ''solar power'') 3 []) = [] \<and>
   int (length (fst (generateSerpQueries env_prose c0 (JStr ''solar power'') 3 []))) \<le> 3 \<and>
   fst (generateSerpQueries env_prose c0 (JStr ''solar power'') 3 []) \<noteq> []"
proof -
  have h: "(1::int) \<le> 3"
    by simp
  have "chat env_no_queries (n_chat c0) = Some ''{ queries: [] }'' \<and>
        parse_queries env_no_queries ''{ queries: [] }'' = Some (JObj [(''queries'', JArr [])])"
    by (simp add: env_no_queries_def env_down_def)
  then have "fst (generateSerpQueries env_no_queries c0 (JStr ''solar power'') 3 []) = []"
    using generateSerpQueries_length [OF h, of env_no_queries c0 "JStr ''solar power''" "[]"]
    by simp
  moreover have "parse_queries env_prose reply = None" for reply
    by (simp add: env_prose_def env_down_def)
  then have "int (length (fst (generateSerpQueries env_prose c0 (JStr ''solar power'') 3 []))) \<le> 3 \<and>
        fst (generateSerpQueries env_prose c0 (JStr ''solar power'') 3 []) \<noteq> []"
    using generateSerpQueries_length [OF h, of env_prose c0 "JStr ''solar power''" "[]"]
    by simp
  ultimately show ?thesis
    by simp
qed

text \<open>
  C6. When the model's reply is not valid JSON (\<^verbatim>\<open>JSON.parse\<close> raises) or parses to a
  value without a \<^verbatim>\<open>queries\<close> array, \<^verbatim>\<open>generateSerpQueries\<close> returns exactly one query:
  its \<^verbatim>\<open>query\<close> is the topic and its \<^verbatim>\<open>researchGoal\<close> the fixed explanation. The same
  holds when the model call itself raises. The function is total: nothing is raised to
  the caller.
\<close>

theorem generateSerpQueries_fallback:
  assumes "chat e (n_chat c) = None \<or>
           (\<exists>txt. chat e (n_chat c) = Some txt \<and>
              (parse_queries e txt = None \<or>
               (\<exists>v. parse_queries e txt = Some v \<and> (\<forall>qs. js_prop v ''queries'' \<noteq> JArr qs))))"
  shows "fst (generateSerpQueries e c (JStr topic) numQueries ls) =
           [JObj [(''query'', JStr topic),
                  (''researchGoal'', JStr ''Directly answering the user's original query'')]]"
  using assms
  by (auto simp: generateSerpQueries_def parse_serp_queries_def fallback_query_def Let_def
           split: option.splits jsval.splits)

theorem generateSerpQueries_fallback_witness:
  "fst (generateSerpQueries env_prose c0 (JStr ''solar power'') 3 []) =
     [JObj [(''query'', JStr ''solar power''),
            (''researchGoal'', JStr ''Directly answering the user's original query'')]]"
proof -
  have "chat env_prose (n_chat c0) = Some ''Here are some ideas.'' \<and>
        parse_queries env_prose ''Here are some ideas.'' = None"
    by (simp add: env_prose_def env_down_def)
  then show ?thesis
    using generateSerpQueries_fallback [of env_prose c0 "''solar power''" 3 "[]"]
    by simp
qed

subsection \<open>Distilling\<close>

text \<open>
  C8. When \<^verbatim>\<open>results\<close> is missing or empty (anything but a non-empty array),
  \<^verbatim>\<open>processSerpResult\<close> returns no learnings and no follow-up questions and makes no model
  call: the call counter is unchanged. In every case the returned learnings are at most
  \<open>numLearnings\<close> and the returned follow-up questions at most \<open>numFollowUpQuestions\<close>,
  for caps that are not negative (the agent passes 5 and 3; the defaults are 3 and 3).
\<close>

theorem processSerpResult_caps:
  "((\<forall>xs. rs = JArr xs \<longrightarrow> xs = []) \<longrightarrow>
      processSerpResult e c query rs numLearnings numFollowUpQuestions = (nothing_distilled, c)) \<and>
   (0 \<le> numLearnings \<longrightarrow>
      int (length (learnings (fst (processSerpResult e c query rs numLearnings
                                     numFollowUpQuestions)))) \<le> numLearnings) \<and>
   (0 \<le> numFollowUpQuestions \<longrightarrow>
      int (length (followUpQuestions (fst (processSerpResult e c query rs numLearnings
                                             numFollowUpQuestions)))) \<le> numFollowUpQuestions)"
proof -
  have parse: "parse_serp_result e reply numLearnings numFollowUpQuestions = Some d \<Longrightarrow>
      (0 \<le> numLearnings \<longrightarrow> int (length (learnings d)) \<le> numLearnings) \<and>
      (0 \<le> numFollowUpQuestions \<longrightarrow> int (length (followUpQuestions d)) \<le> numFollowUpQuestions)"
    for reply d
    by (auto simp: parse_serp_result_def length_js_slice0
             split: option.splits if_splits jsval.splits)
  have caps: "(0 \<le> numLearnings \<longrightarrow>
      int (length (learnings (fst (processSerpResult e c query rs numLearnings
                                     numFollowUpQuestions)))) \<le> numLearnings) \<and>
   (0 \<le> numFollowUpQuestions \<longrightarrow>
      int (length (followUpQuestions (fst (processSerpResult e c query rs numLearnings
                                             numFollowUpQuestions)))) \<le> numFollowUpQuestions)"
    using parse
    by (auto simp: processSerpResult_def nothing_distilled_def Let_def
             split: jsval.splits option.splits)
  have empty: "(\<forall>xs. rs = JArr xs \<longrightarrow> xs = []) \<longrightarrow>
      processSerpResult e c query rs numLearnings numFollowUpQuestions = (nothing_distilled, c)"
    by (auto simp: processSerpResult_def split: jsval.splits)
  from empty caps show ?thesis
    by blast
qed

theorem processSerpResult_caps_witness:
  "processSerpResult env_distill c0 (JStr ''solar power'') (JArr []) 5 3 = (nothing_distilled, c0) \<and>
   processSerpResult env_distill c0 (JStr ''solar power'') JUndef 5 3 = (nothing_distilled, c0) \<and>
   learnings (fst (processSerpResult env_distill c0 (JStr ''solar power'') (JArr three_results) 5 3))
     = map JNum [1, 2, 3, 4, 5] \<and>
   length (followUpQuestions
             (fst (processSerpResult env_distill c0 (JStr ''solar power'') (JArr three_results) 5 3)))
     = 3"
proof -
  have "processSerpResult env_distill c0 (JStr ''solar power'') (JArr []) 5 3 = (nothing_distilled, c0)"
    using processSerpResult_caps [of "JArr []" env_distill c0 "JStr ''solar power''" 5 3]
    by simp
  moreover have "processSerpResult env_distill c0 (JStr ''solar power'') JUndef 5 3
      = (nothing_distilled, c0)"
    using processSerpResult_caps [of JUndef env_distill c0 "JStr ''solar power''" 5 3]
    by simp
  moreover have "learnings (fst (processSerpResult env_distill c0 (JStr ''solar power'')
                                  (JArr three_results) 5 3)) = map JNum [1, 2, 3, 4, 5] \<and>
     length (followUpQuestions (fst (processSerpResult env_distill c0 (JStr ''solar power'')
                                       (JArr three_results) 5 3))) = 3"
    using processSerpResult_caps [of "JArr three_results" env_distill c0 "JStr ''solar power''" 5 3]
    by (simp add: processSerpResult_def parse_serp_result_def env_distill_def env_three_def
          env_down_def c0_def three_results_def js_slice0_def Let_def)
  ultimately show ?thesis
    by simp
qed

subsection \<open>The search client with retries\<close>









section \<open>Invariants of a deep run\<close>

subsection \<open>Observations on appended logs\<close>

lemma generated_append: "generated (xs @ ys) = generated xs + generated ys"
  by (induction xs rule: generated.induct) simp_all

lemma completed_units_append:
  "completed_units (xs @ ys) = completed_units xs + completed_units ys"
  by (induction xs rule: completed_units.induct) simp_all

lemma generated_traces: "list_all quiet_trace ts \<Longrightarrow> generated (traces ts) = 0"
proof (induction ts)
  case (Cons t ts)
  then show ?case by (cases t) (simp_all add: traces_def)
qed (simp add: traces_def)

lemma completed_units_traces: "completed_units (traces ts) = 0"
  by (induction ts) (simp_all add: traces_def)

lemma event_ok_traces: "list_all quiet_trace ts \<Longrightarrow> list_all (event_ok D B) (traces ts)"
proof (induction ts)
  case (Cons t ts)
  then show ?case by (cases t) (simp_all add: traces_def)
qed (simp add: traces_def)

lemma no_done_traces: "DeepReport AtUnitDone pd \<notin> set (traces ts)"
  by (auto simp: traces_def)

lemma well_reported_Nil: "well_reported D []"
  by (simp add: well_reported_def)

lemma well_reported_snoc:
  "well_reported D (evs @ [ev]) \<longleftrightarrow>
     well_reported D evs \<and> (\<forall>pd. ev = DeepReport AtUnitDone pd \<longrightarrow> unit_report_ok D evs pd)"
proof
  assume wr: "well_reported D (evs @ [ev])"
  have "unit_report_ok D pre pd" if "evs = pre @ DeepReport AtUnitDone pd # post" for pre pd post
  proof -
    from that have "evs @ [ev] = pre @ DeepReport AtUnitDone pd # (post @ [ev])"
      by simp
    with wr show ?thesis
      unfolding well_reported_def by blast
  qed
  moreover have "unit_report_ok D evs pd" if "ev = DeepReport AtUnitDone pd" for pd
  proof -
    from that have "evs @ [ev] = evs @ DeepReport AtUnitDone pd # []"
      by simp
    with wr show ?thesis
      unfolding well_reported_def by blast
  qed
  ultimately show "well_reported D evs \<and>
      (\<forall>pd. ev = DeepReport AtUnitDone pd \<longrightarrow> unit_report_ok D evs pd)"
    unfolding well_reported_def by blast
next
  assume a: "well_reported D evs \<and>
      (\<forall>pd. ev = DeepReport AtUnitDone pd \<longrightarrow> unit_report_ok D evs pd)"
  show "well_reported D (evs @ [ev])"
    unfolding well_reported_def
  proof (intro allI impI)
    fix pre pd post
    assume eq: "evs @ [ev] = pre @ DeepReport AtUnitDone pd # post"
    show "unit_report_ok D pre pd"
    proof (cases post rule: rev_cases)
      case Nil
      with eq have "evs = pre" "ev = DeepReport AtUnitDone pd"
        by simp_all
      with a show ?thesis by simp
    next
      case (snoc post' x)
      with eq have "evs = pre @ DeepReport AtUnitDone pd # post'"
        by simp
      with a show ?thesis
        unfolding well_reported_def by blast
    qed
  qed
qed

lemma well_reported_append_quiet:
  assumes "well_reported D evs" and "\<forall>pd. DeepReport AtUnitDone pd \<notin> set new"
  shows "well_reported D (evs @ new)"
  using assms(2)
proof (induction new rule: rev_induct)
  case Nil
  with assms(1) show ?case by simp
next
  case (snoc x xs)
  then have "well_reported D (evs @ xs)"
    by simp
  moreover from snoc.prems have "\<forall>pd. x \<noteq> DeepReport AtUnitDone pd"
    by auto
  ultimately have "well_reported D ((evs @ xs) @ [x])"
    by (subst well_reported_snoc) simp
  then show ?case by simp
qed

lemma well_reported_snoc2:
  "well_reported D (evs @ [a, B]) \<longleftrightarrow>
     well_reported D evs \<and> (\<forall>pd. a = DeepReport AtUnitDone pd \<longrightarrow> unit_report_ok D evs pd) \<and>
     (\<forall>pd. B = DeepReport AtUnitDone pd \<longrightarrow> unit_report_ok D (evs @ [a]) pd)"
proof -
  have "well_reported D (evs @ [a, B]) = well_reported D ((evs @ [a]) @ [B])"
    by simp
  then show ?thesis
    unfolding well_reported_snoc by blast
qed

subsection \<open>The set of visited URLs\<close>

lemma distinct_set_add:
  "distinct (filter primitive vs) \<Longrightarrow> distinct (filter primitive (set_add vs v))"
  by (auto simp: set_add_def set_has_def)

lemma distinct_foldl_set_add:
  "distinct (filter primitive vs) \<Longrightarrow> distinct (filter primitive (foldl set_add vs us))"
  by (induction us arbitrary: vs) (simp_all add: distinct_set_add)

subsection \<open>One unit\<close>

lemma run_unit_result_ok: "result_ok D cd (fst (run_unit e D cd g i n st))"
  by (auto simp: run_unit_def unit_done_def Let_def list_all_iff split: prod.splits)

lemma run_unit_queue: "queriesToProcess (snd (run_unit e D cd g i n st)) = queriesToProcess st"
  by (auto simp: run_unit_def unit_done_def Let_def split: prod.splits)

lemma run_unit_inv:
  assumes "unit_inv D B cd (Suc k) st"
  shows "unit_inv D B cd k (snd (run_unit e D cd g i n st))"
  using assms
  by (auto simp: run_unit_def unit_done_def Let_def unit_inv_def log_inv_def generated_append
        completed_units_append well_reported_snoc well_reported_snoc2 unit_report_ok_def distinct_foldl_set_add
      split: prod.splits)

subsection \<open>The units and the results of one node\<close>

lemma run_units_inv:
  assumes "unit_inv D B cd (length gs + k) st"
  shows "unit_inv D B cd k (snd (run_units e D cd n i gs st)) \<and>
         (\<forall>rs. fst (run_units e D cd n i gs st) = Some rs \<longrightarrow> list_all (result_ok D cd) rs)"
  using assms
proof (induction gs arbitrary: st i)
  case Nil
  then show ?case by simp
next
  case (Cons g gs)
  obtain r st1 where u: "run_unit e D cd g i n st = (r, st1)"
    by (cases "run_unit e D cd g i n st")
  from Cons.prems have "unit_inv D B cd (Suc (length gs + k)) st"
    by simp
  from run_unit_inv [OF this, of e g i n] u have inv1: "unit_inv D B cd (length gs + k) st1"
    by simp
  from run_unit_result_ok [of D cd e g i n st] u have ok: "result_ok D cd r"
    by simp
  show ?case
  proof (cases "r = UnitRejected")
    case True
    with u inv1 show ?thesis
      by (simp add: unit_inv_def)
  next
    case False
    obtain rs st2 where us: "run_units e D cd n (i + 1) gs st1 = (rs, st2)"
      by (cases "run_units e D cd n (i + 1) gs st1")
    from Cons.IH [OF inv1, of "i + 1"] us
    have ih: "unit_inv D B cd k st2" "\<forall>xs. rs = Some xs \<longrightarrow> list_all (result_ok D cd) xs"
      by simp_all
    from False u us ih ok show ?thesis
      by (cases r; cases rs) simp_all
  qed
qed

text \<open>
  No promise of a run is rejected: the planner returns no null entry, and a unit for an
  entry that is not null catches what it raises.
\<close>

lemma generateSerpQueries_entries:
  "g \<in> set (fst (generateSerpQueries e c query numQueries ls)) \<Longrightarrow> \<not> nullish g"
  by (auto simp: generateSerpQueries_def parse_serp_queries_def fallback_query_def Let_def
           split: jsval.splits option.splits if_splits)

lemma run_unit_not_rejected:
  "\<not> nullish g \<Longrightarrow> fst (run_unit e D cd g i n st) \<noteq> UnitRejected"
  by (auto simp: run_unit_def unit_done_def Let_def split: prod.splits)

lemma run_units_complete:
  assumes "\<forall>g \<in> set gs. \<not> nullish g"
  shows "fst (run_units e D cd n i gs st) \<noteq> None"
  using assms
proof (induction gs arbitrary: st i)
  case Nil
  then show ?case by simp
next
  case (Cons g gs)
  obtain r st1 where u: "run_unit e D cd g i n st = (r, st1)"
    by (cases "run_unit e D cd g i n st")
  with Cons.prems run_unit_not_rejected [of g e D cd i n st] have r: "r \<noteq> UnitRejected"
    by simp
  obtain rs st2 where us: "run_units e D cd n (i + 1) gs st1 = (rs, st2)"
    by (cases "run_units e D cd n (i + 1) gs st1")
  with Cons.IH [of "i + 1" st1] Cons.prems have "rs \<noteq> None"
    by simp
  with u us r show ?case
    by (cases r; cases rs) simp_all
qed

lemma run_units_queue:
  "queriesToProcess (snd (run_units e D cd n i gs st)) = queriesToProcess st"
proof (induction gs arbitrary: st i)
  case Nil
  then show ?case by simp
next
  case (Cons g gs)
  obtain r st1 where u: "run_unit e D cd g i n st = (r, st1)"
    by (cases "run_unit e D cd g i n st")
  with run_unit_queue [of e D cd g i n st] have q: "queriesToProcess st1 = queriesToProcess st"
    by simp
  obtain rs st2 where us: "run_units e D cd n (i + 1) gs st1 = (rs, st2)"
    by (cases "run_units e D cd n (i + 1) gs st1")
  with Cons.IH [of "i + 1" st1] q have "queriesToProcess st2 = queriesToProcess st"
    by simp
  with u us q show ?case
    by (cases r; cases rs) simp_all
qed

lemma collect_inv:
  assumes "unit_inv D B cd 0 st" and "list_all (result_ok D cd) rs"
  shows "unit_inv D B cd 0 (collect rs st)"
  using assms
proof (induction rs st rule: collect.induct)
  case (1 st)
  then show ?case by simp
next
  case (2 ts ls fs rs st)
  from "2.prems" have ok: "list_all quiet_trace ts"
    "list_all (\<lambda>f. node_depth f = cd + 1) fs" "fs = [] \<or> cd < D"
    by simp_all
  let ?new = "traces ts @ (if ls \<noteq> [] then [Yield (Learnings ls)] else [])"
  have quiet: "\<forall>pd. DeepReport AtUnitDone pd \<notin> set ?new"
    by (auto simp: traces_def)
  from ok(2,3) have fs: "list_all (\<lambda>nd. node_depth nd = cd + 1 \<and> cd < D) fs"
    by (auto simp: list_all_iff)
  have "unit_inv D B cd 0
          (st\<lparr>allLearnings := allLearnings st @ ls,
              queriesToProcess := queriesToProcess st @ fs,
              events := events st @ ?new\<rparr>)"
    using "2.prems"(1) ok(1) fs well_reported_append_quiet [OF _ quiet, of D "events st"]
    by (simp add: unit_inv_def log_inv_def generated_append completed_units_append
          generated_traces completed_units_traces event_ok_traces)
  with "2.IH" "2.prems"(2) show ?case
    by simp
next
  case (3 ts rs st)
  from "3.prems" have ok: "list_all quiet_trace ts"
    by simp
  have "unit_inv D B cd 0 (st\<lparr>events := events st @ traces ts\<rparr>)"
    using "3.prems"(1) ok well_reported_append_quiet [of D "events st" "traces ts"] no_done_traces
    by (simp add: unit_inv_def log_inv_def generated_append completed_units_append
          generated_traces completed_units_traces event_ok_traces)
  with "3.IH" "3.prems"(2) show ?case
    by simp
next
  case (4 rs st)
  then show ?case by simp
qed

lemma collect_queue:
  assumes "list_all (result_ok D cd) rs"
  shows "\<exists>fs. queriesToProcess (collect rs st) = queriesToProcess st @ fs \<and>
              list_all (\<lambda>f. node_depth f = cd + 1) fs \<and> (fs = [] \<or> cd < D)"
  using assms
proof (induction rs st rule: collect.induct)
  case (2 ts ls fs rs st)
  let ?st = "st\<lparr>allLearnings := allLearnings st @ ls,
                 queriesToProcess := queriesToProcess st @ fs,
                 events := events st @ traces ts @
                   (if ls \<noteq> [] then [Yield (Learnings ls)] else [])\<rparr>"
  from "2.prems" have here: "list_all (\<lambda>f. node_depth f = cd + 1) fs" "fs = [] \<or> cd < D"
    and rest: "list_all (result_ok D cd) rs"
    by simp_all
  from "2.IH" [OF rest] obtain gs where
    gs: "queriesToProcess (collect rs ?st) = queriesToProcess ?st @ gs"
      "list_all (\<lambda>f. node_depth f = cd + 1) gs" "gs = [] \<or> cd < D"
    by blast
  from gs here have "queriesToProcess (collect (UnitOk ts ls fs # rs) st) =
      queriesToProcess st @ (fs @ gs) \<and>
      list_all (\<lambda>f. node_depth f = cd + 1) (fs @ gs) \<and> (fs @ gs = [] \<or> cd < D)"
    by auto
  then show ?case by blast
qed simp_all

subsection \<open>One node, one level, the loop\<close>

lemma process_node_inv:
  assumes "unit_inv D B cd 0 st" and "1 \<le> B"
  shows "unit_inv D B cd 0 (process_node e D B cd n i nd st)"
proof (cases "set_has (visitedQueries st) (node_query nd)")
  case True
  with assms show ?thesis
    by (simp add: process_node_def)
next
  case False
  let ?q = "node_query nd"
  let ?pd1 = "(progressData st)\<lparr>currentQuery := ?q, status := StNode ?q cd D\<rparr>"
  let ?st1 = "st\<lparr>visitedQueries := set_add (visitedQueries st) ?q, progressData := ?pd1,
                  events := events st @
                    [DeepReport AtNode ?pd1,
                     Yield (ReasoningTrace (TrSubQuestion ?q (i + 1) n cd)),
                     Yield (ReasoningTrace TrGenerating)]\<rparr>"
  obtain gqs c where g: "generateSerpQueries e (ncalls ?st1) ?q B (allLearnings ?st1) = (gqs, c)"
    by (cases "generateSerpQueries e (ncalls ?st1) ?q B (allLearnings ?st1)")
  let ?pd2 = "(progressData ?st1)\<lparr>totalQueries := totalQueries (progressData ?st1) + length gqs\<rparr>"
  let ?st2 = "?st1\<lparr>ncalls := c, progressData := ?pd2,
                    events := events ?st1 @ [Yield (ReasoningTrace (TrGenerated (length gqs)))]\<rparr>"
  have quiet: "\<forall>pd. DeepReport AtUnitDone pd \<notin> set
      [DeepReport AtNode ?pd1, Yield (ReasoningTrace (TrSubQuestion ?q (i + 1) n cd)),
       Yield (ReasoningTrace TrGenerating), Yield (ReasoningTrace (TrGenerated (length gqs)))]"
    by simp
  from generateSerpQueries_count [OF assms(2), of e "ncalls ?st1" ?q "allLearnings ?st1"] g
  have count: "int (length gqs) \<le> B"
    by simp
  have inv2: "unit_inv D B cd (length gqs + 0) ?st2"
    using assms(1) count well_reported_append_quiet [OF _ quiet, of D "events st"]
    by (simp add: unit_inv_def log_inv_def generated_append completed_units_append)
  obtain rs st3 where us: "run_units e D cd (length gqs) 0 gqs ?st2 = (rs, st3)"
    by (cases "run_units e D cd (length gqs) 0 gqs ?st2")
  from run_units_inv [OF inv2, of e "length gqs" 0] us
  have inv3: "unit_inv D B cd 0 st3" and ok: "\<forall>xs. rs = Some xs \<longrightarrow> list_all (result_ok D cd) xs"
    by simp_all
  have eq: "process_node e D B cd n i nd st =
      (case rs of
         None \<Rightarrow> st3\<lparr>events := events st3 @ [Yield (ReasoningTrace (TrTopicError ?q))]\<rparr>
       | Some xs \<Rightarrow> collect xs st3)"
    using False g us by (simp add: process_node_def Let_def)
  show ?thesis
  proof (cases rs)
    case None
    have "unit_inv D B cd 0 (st3\<lparr>events := events st3 @ [Yield (ReasoningTrace (TrTopicError ?q))]\<rparr>)"
      using inv3
      by (simp add: unit_inv_def log_inv_def generated_append completed_units_append
            well_reported_snoc)
    with None eq show ?thesis by simp
  next
    case (Some xs)
    with ok collect_inv [OF inv3, of xs] eq show ?thesis
      by simp
  qed
qed

lemma process_level_inv:
  assumes "unit_inv D B cd 0 st" and "1 \<le> B"
  shows "unit_inv D B cd 0 (process_level e D B cd n i nds st)"
  using assms
  by (induction nds arbitrary: st i) (simp_all add: process_node_inv)

lemma deep_loop_inv:
  assumes "loop_inv D B cd st" and "1 \<le> B"
  shows "log_inv D B (deep_loop e D B cd st)"
  using assms
proof (induction e D B cd st rule: deep_loop.induct)
  case (1 e D B cd st)
  note inv = "1.prems"(1) and breadth = "1.prems"(2)
  show ?case
  proof (cases "queriesToProcess st \<noteq> [] \<and> cd \<le> D")
    case False
    then have "deep_loop e D B cd st = st"
      by (subst deep_loop.simps) (rule if_not_P)
    with inv show ?thesis
      by (simp add: loop_inv_def)
  next
    case True
    let ?cur = "filter (\<lambda>q. node_depth q = cd) (queriesToProcess st)"
    let ?pd = "(progressData st)\<lparr>currentDepth := cd, status := StDepth cd D\<rparr>"
    let ?st1 = "st\<lparr>queriesToProcess := filter (\<lambda>q. cd < node_depth q) (queriesToProcess st),
                    progressData := ?pd,
                    events := events st @
                      [DeepReport AtLevel ?pd,
                       Yield (ReasoningTrace (TrLevel cd D (length ?cur)))]\<rparr>"
    let ?st2 = "process_level e D B cd (length ?cur) 0 ?cur ?st1"
    from inv have rest: "filter (\<lambda>q. cd < node_depth q) (queriesToProcess st) = []"
      by (auto simp: loop_inv_def list_all_iff filter_empty_conv)
    have inv1: "unit_inv D B cd 0 ?st1"
      using inv True rest
      by (simp add: loop_inv_def unit_inv_def log_inv_def generated_append
            completed_units_append well_reported_snoc2)
    define st2 where "st2 = ?st2"
    have inv2: "unit_inv D B cd 0 st2"
      unfolding st2_def by (rule process_level_inv [OF inv1 breadth])
    then have "list_all (\<lambda>nd. node_depth nd = cd + 1 \<and> cd + 1 \<le> D) (queriesToProcess st2)"
      unfolding unit_inv_def list_all_iff by fastforce
    with inv2 have "loop_inv D B (cd + 1) st2"
      unfolding loop_inv_def unit_inv_def by simp
    then have next_inv: "loop_inv D B (cd + 1) ?st2"
      by (simp only: st2_def)
    have "log_inv D B (deep_loop e D B (cd + 1) ?st2)"
      by (rule "1.IH" [OF True refl refl refl next_inv breadth])
    moreover have "deep_loop e D B cd st = deep_loop e D B (cd + 1) ?st2"
      using True by (subst deep_loop.simps) (simp add: Let_def)
    ultimately show ?thesis
      by simp
  qed
qed

subsection \<open>The whole run\<close>

lemma initial_loop_inv: "1 \<le> D \<Longrightarrow> loop_inv D B 1 (initial_deep_state query D B)"
  by (simp add: loop_inv_def log_inv_def initial_deep_state_def traces_def well_reported_def
        Cons_eq_append_conv)

text \<open>
  The log of a deep run is the log of the loop followed by the report on the final
  step, the content frame with the final report and the report of completion.
\<close>

lemma deep_run_log:
  assumes "1 \<le> D" and "1 \<le> B"
  shows "\<exists>st pd1 r pd2.
           log_inv D B st \<and>
           events (deep_run e query D B) =
             events st @ [DeepReport AtFinal pd1, Yield (Content r), DeepReport AtComplete pd2] \<and>
           visitedUrls (deep_run e query D B) = visitedUrls st \<and>
           progressData (deep_run e query D B) =
             (progressData st)\<lparr>status := StComplete, progress := 100\<rparr> \<and>
           (\<forall>q ls us. r \<noteq> PartialReport q ls us)"
proof -
  let ?st = "deep_loop e D B 1 (initial_deep_state query D B)"
  have inv: "log_inv D B ?st"
    by (rule deep_loop_inv [OF initial_loop_inv [OF assms(1)] assms(2)])
  obtain r c where g: "generateFinalReport e (ncalls ?st) query (allLearnings ?st) (allSources ?st)
      = (r, c)"
    by (cases "generateFinalReport e (ncalls ?st) query (allLearnings ?st) (allSources ?st)")
  then have r: "\<forall>q ls us. r \<noteq> PartialReport q ls us"
    by (auto simp: generateFinalReport_def split: option.splits)
  from g inv r show ?thesis
    by (auto simp: deep_run_def Let_def)
qed

lemma clamp_depth: "1 \<le> min (max 1 (d::int)) 5 \<and> min (max 1 d) 5 \<le> 5"
  by simp

lemma clamp_breadth: "2 \<le> min (max 2 (B::int)) 5 \<and> min (max 2 B) 5 \<le> 5"
  by simp





lemma event_ok_sub_question:
  "list_all (event_ok D B) evs \<Longrightarrow>
     Yield (ReasoningTrace (TrSubQuestion q i n d)) \<in> set evs \<Longrightarrow> 1 \<le> d \<and> d \<le> D"
  by (auto simp: list_all_iff)


text \<open>The follow-ups one node appends to the queue.\<close>

lemma run_units_result_ok:
  "fst (run_units e D cd n i gs st) = Some rs \<Longrightarrow> list_all (result_ok D cd) rs"
proof (induction gs arbitrary: st i rs)
  case Nil
  then show ?case by auto
next
  case (Cons g gs)
  obtain r st1 where u: "run_unit e D cd g i n st = (r, st1)"
    by (cases "run_unit e D cd g i n st")
  from run_unit_result_ok [of D cd e g i n st] u have ok: "result_ok D cd r"
    by simp
  obtain xs st2 where us: "run_units e D cd n (i + 1) gs st1 = (xs, st2)"
    by (cases "run_units e D cd n (i + 1) gs st1")
  from Cons.prems u us ok Cons.IH [of "i + 1" st1] show ?case
    by (cases r; cases xs) auto
qed

lemma process_node_queue:
  "\<exists>fs. queriesToProcess (process_node e D B cd n i nd st) = queriesToProcess st @ fs \<and>
        list_all (\<lambda>f. node_depth f = cd + 1) fs \<and> (fs = [] \<or> cd < D)"
proof (cases "set_has (visitedQueries st) (node_query nd)")
  case True
  then show ?thesis
    by (simp add: process_node_def)
next
  case False
  let ?q = "node_query nd"
  let ?pd1 = "(progressData st)\<lparr>currentQuery := ?q, status := StNode ?q cd D\<rparr>"
  let ?st1 = "st\<lparr>visitedQueries := set_add (visitedQueries st) ?q, progressData := ?pd1,
                  events := events st @
                    [DeepReport AtNode ?pd1,
                     Yield (ReasoningTrace (TrSubQuestion ?q (i + 1) n cd)),
                     Yield (ReasoningTrace TrGenerating)]\<rparr>"
  obtain gqs c where g: "generateSerpQueries e (ncalls ?st1) ?q B (allLearnings ?st1) = (gqs, c)"
    by (cases "generateSerpQueries e (ncalls ?st1) ?q B (allLearnings ?st1)")
  let ?pd2 = "(progressData ?st1)\<lparr>totalQueries := totalQueries (progressData ?st1) + length gqs\<rparr>"
  let ?st2 = "?st1\<lparr>ncalls := c, progressData := ?pd2,
                    events := events ?st1 @ [Yield (ReasoningTrace (TrGenerated (length gqs)))]\<rparr>"
  obtain rs st3 where us: "run_units e D cd (length gqs) 0 gqs ?st2 = (rs, st3)"
    by (cases "run_units e D cd (length gqs) 0 gqs ?st2")
  from run_units_queue [of e D cd "length gqs" 0 gqs ?st2] us
  have q3: "queriesToProcess st3 = queriesToProcess st"
    by simp
  have eq: "process_node e D B cd n i nd st =
      (case rs of
         None \<Rightarrow> st3\<lparr>events := events st3 @ [Yield (ReasoningTrace (TrTopicError ?q))]\<rparr>
       | Some xs \<Rightarrow> collect xs st3)"
    using False g us by (simp add: process_node_def Let_def)
  show ?thesis
  proof (cases rs)
    case None
    with eq q3 show ?thesis by simp
  next
    case (Some xs)
    with run_units_result_ok [of e D cd "length gqs" 0 gqs ?st2 xs] us
    have "list_all (result_ok D cd) xs"
      by simp
    from collect_queue [OF this, of st3] Some eq q3 show ?thesis
      by simp
  qed
qed

subsection \<open>The log only grows\<close>

lemma run_unit_grows: "\<exists>new. events (snd (run_unit e D cd g i n st)) = events st @ new"
  by (auto simp: run_unit_def unit_done_def Let_def split: prod.splits)

lemma run_units_grows: "\<exists>new. events (snd (run_units e D cd n i gs st)) = events st @ new"
proof (induction gs arbitrary: st i)
  case Nil
  then show ?case by simp
next
  case (Cons g gs)
  obtain r st1 where u: "run_unit e D cd g i n st = (r, st1)"
    by (cases "run_unit e D cd g i n st")
  with run_unit_grows [of e D cd g i n st] obtain n1 where n1: "events st1 = events st @ n1"
    by auto
  obtain rs st2 where us: "run_units e D cd n (i + 1) gs st1 = (rs, st2)"
    by (cases "run_units e D cd n (i + 1) gs st1")
  with Cons.IH [of "i + 1" st1] obtain n2 where "events st2 = events st1 @ n2"
    by auto
  with n1 have "events st2 = events st @ (n1 @ n2)"
    by simp
  with u us n1 show ?case
    by (cases r; cases rs) auto
qed

lemma collect_grows: "\<exists>new. events (collect rs st) = events st @ new"
proof (induction rs st rule: collect.induct)
  case (2 ts ls fs rs st)
  then obtain new where "events (collect (UnitOk ts ls fs # rs) st) =
      events st @ ((traces ts @ (if ls \<noteq> [] then [Yield (Learnings ls)] else [])) @ new)"
    by auto
  then show ?case by blast
next
  case (3 ts rs st)
  then obtain new where "events (collect (UnitFailed ts # rs) st) = events st @ (traces ts @ new)"
    by auto
  then show ?case by blast
qed simp_all

lemma process_node_grows:
  "\<exists>new. events (process_node e D B cd n i nd st) = events st @ new"
proof (cases "set_has (visitedQueries st) (node_query nd)")
  case True
  then show ?thesis
    by (simp add: process_node_def)
next
  case False
  let ?q = "node_query nd"
  let ?pd1 = "(progressData st)\<lparr>currentQuery := ?q, status := StNode ?q cd D\<rparr>"
  let ?st1 = "st\<lparr>visitedQueries := set_add (visitedQueries st) ?q, progressData := ?pd1,
                  events := events st @
                    [DeepReport AtNode ?pd1,
                     Yield (ReasoningTrace (TrSubQuestion ?q (i + 1) n cd)),
                     Yield (ReasoningTrace TrGenerating)]\<rparr>"
  obtain gqs c where g: "generateSerpQueries e (ncalls ?st1) ?q B (allLearnings ?st1) = (gqs, c)"
    by (cases "generateSerpQueries e (ncalls ?st1) ?q B (allLearnings ?st1)")
  let ?pd2 = "(progressData ?st1)\<lparr>totalQueries := totalQueries (progressData ?st1) + length gqs\<rparr>"
  let ?st2 = "?st1\<lparr>ncalls := c, progressData := ?pd2,
                    events := events ?st1 @ [Yield (ReasoningTrace (TrGenerated (length gqs)))]\<rparr>"
  obtain rs st3 where us: "run_units e D cd (length gqs) 0 gqs ?st2 = (rs, st3)"
    by (cases "run_units e D cd (length gqs) 0 gqs ?st2")
  with run_units_grows [of e D cd "length gqs" 0 gqs ?st2]
  obtain n3 where "events st3 = events ?st2 @ n3"
    by auto
  then have e3: "events st3 = events st @
      ([DeepReport AtNode ?pd1, Yield (ReasoningTrace (TrSubQuestion ?q (i + 1) n cd)),
        Yield (ReasoningTrace TrGenerating), Yield (ReasoningTrace (TrGenerated (length gqs)))] @ n3)"
    by simp
  have eq: "process_node e D B cd n i nd st =
      (case rs of
         None \<Rightarrow> st3\<lparr>events := events st3 @ [Yield (ReasoningTrace (TrTopicError ?q))]\<rparr>
       | Some xs \<Rightarrow> collect xs st3)"
    using False g us by (simp add: process_node_def Let_def)
  show ?thesis
  proof (cases rs)
    case None
    with eq e3 have "events (process_node e D B cd n i nd st) = events st @
      (([DeepReport AtNode ?pd1, Yield (ReasoningTrace (TrSubQuestion ?q (i + 1) n cd)),
        Yield (ReasoningTrace TrGenerating), Yield (ReasoningTrace (TrGenerated (length gqs)))] @ n3)
        @ [Yield (ReasoningTrace (TrTopicError ?q))])"
      by simp
    then show ?thesis by blast
  next
    case (Some xs)
    from collect_grows [of xs st3] obtain n4 where "events (collect xs st3) = events st3 @ n4"
      by blast
    with e3 Some eq have "events (process_node e D B cd n i nd st) = events st @
      (([DeepReport AtNode ?pd1, Yield (ReasoningTrace (TrSubQuestion ?q (i + 1) n cd)),
        Yield (ReasoningTrace TrGenerating), Yield (ReasoningTrace (TrGenerated (length gqs)))] @ n3)
        @ n4)"
      by simp
    then show ?thesis by blast
  qed
qed

lemma process_level_grows:
  "\<exists>new. events (process_level e D B cd n i nds st) = events st @ new"
proof (induction nds arbitrary: st i)
  case Nil
  then show ?case by simp
next
  case (Cons nd nds)
  from process_node_grows [of e D B cd n i nd st]
  obtain n1 where n1: "events (process_node e D B cd n i nd st) = events st @ n1"
    by blast
  from Cons.IH [of "i + 1" "process_node e D B cd n i nd st"]
  obtain n2 where "events (process_level e D B cd n (i + 1) nds (process_node e D B cd n i nd st))
      = events (process_node e D B cd n i nd st) @ n2"
    by blast
  with n1 have "events (process_level e D B cd n i (nd # nds) st) = events st @ (n1 @ n2)"
    by simp
  then show ?case by blast
qed

lemma deep_loop_grows: "\<exists>new. events (deep_loop e D B cd st) = events st @ new"
proof (induction e D B cd st rule: deep_loop.induct)
  case (1 e D B cd st)
  show ?case
  proof (cases "queriesToProcess st \<noteq> [] \<and> cd \<le> D")
    case False
    then have "deep_loop e D B cd st = st"
      by (subst deep_loop.simps) (rule if_not_P)
    then show ?thesis by simp
  next
    case True
    let ?cur = "filter (\<lambda>q. node_depth q = cd) (queriesToProcess st)"
    let ?pd = "(progressData st)\<lparr>currentDepth := cd, status := StDepth cd D\<rparr>"
    let ?st1 = "st\<lparr>queriesToProcess := filter (\<lambda>q. cd < node_depth q) (queriesToProcess st),
                    progressData := ?pd,
                    events := events st @
                      [DeepReport AtLevel ?pd,
                       Yield (ReasoningTrace (TrLevel cd D (length ?cur)))]\<rparr>"
    let ?st2 = "process_level e D B cd (length ?cur) 0 ?cur ?st1"
    from process_level_grows [of e D B cd "length ?cur" 0 ?cur ?st1]
    obtain n1 where n1: "events ?st2 = events ?st1 @ n1"
      by blast
    from "1.IH" [OF True refl refl refl]
    obtain n2 where n2: "events (deep_loop e D B (cd + 1) ?st2) = events ?st2 @ n2"
      by blast
    have "deep_loop e D B cd st = deep_loop e D B (cd + 1) ?st2"
      using True by (subst deep_loop.simps) (simp add: Let_def)
    with n1 n2 have "events (deep_loop e D B cd st) = events st @
        ([DeepReport AtLevel ?pd, Yield (ReasoningTrace (TrLevel cd D (length ?cur)))] @ n1 @ n2)"
      by simp
    then show ?thesis by blast
  qed
qed

lemma deep_run_first_event:
  "hd (events (deep_run e query D B)) = Yield (ReasoningTrace (TrStart query D B))"
proof -
  from deep_loop_grows [of e D B 1 "initial_deep_state query D B"]
  obtain new where "events (deep_loop e D B 1 (initial_deep_state query D B)) =
      events (initial_deep_state query D B) @ new"
    by blast
  then show ?thesis
    by (simp add: deep_run_def Let_def initial_deep_state_def traces_def split: prod.splits)
qed

section \<open>An example run\<close>

text \<open>
  The deep run on \<open>env_up\<close> with depth 2 and breadth 2. The root node gets two queries;
  each finds the three results and yields two learnings and the follow-up ``why'', which
  is processed once at depth 2 (its second copy is skipped as visited) and, at the depth
  bound, yields no follow-up.
\<close>

lemma overallProgress_examples:
  "overallProgress 1 2 (Suc 0) (Suc (Suc 0)) = 37"
  "overallProgress 1 2 (Suc (Suc 0)) (Suc (Suc 0)) = 55"
  "overallProgress 2 2 (Suc (Suc (Suc 0))) (Suc (Suc (Suc (Suc 0)))) = 81"
  "overallProgress 2 2 (Suc (Suc (Suc (Suc 0)))) (Suc (Suc (Suc (Suc 0)))) = 90"
  by code_simp+

lemmas run_defs =
  doDeepResearch_def deep_run_def generateFinalReport_def process_node_def run_unit_def
  unit_done_def searchWeb_def searchWeb_try_def generateSerpQueries_def parse_serp_queries_def
  processSerpResult_def parse_serp_result_def initial_deep_state_def to_source_def js_or_def
  js_slice0_def set_add_def set_has_def traces_def fallback_query_def nothing_distilled_def
  no_results_def Let_def

lemma example_run_events:
  "events (doDeepResearch env_up ''solar power'' two_by_two) =
     [Yield (ReasoningTrace (TrStart ''solar power'' 2 2)),
     Yield (ReasoningTrace TrDeepIntro), Yield (ReasoningTrace TrPreparing),
     DeepReport AtLevel
     \<lparr>currentDepth = 1, totalDepth = 2, currentBreadth = 0, totalBreadth = 2,
     completedQueries = 0, totalQueries = 0, currentQuery = JStr '''',
     progress = 0, status = StDepth 1 2\<rparr>,
     Yield (ReasoningTrace (TrLevel 1 2 1)),
     DeepReport AtNode
     \<lparr>currentDepth = 1, totalDepth = 2, currentBreadth = 0, totalBreadth = 2,
     completedQueries = 0, totalQueries = 0,
     currentQuery = JStr ''solar power'', progress = 0,
     status = StNode (JStr ''solar power'') 1 2\<rparr>,
     Yield (ReasoningTrace (TrSubQuestion (JStr ''solar power'') 1 1 1)),
     Yield (ReasoningTrace TrGenerating),
     Yield (ReasoningTrace (TrGenerated 2)),
     DeepReport AtUnitStart
     \<lparr>currentDepth = 1, totalDepth = 2, currentBreadth = 1, totalBreadth = 2,
     completedQueries = 0, totalQueries = 2, currentQuery = JStr ''first'',
     progress = 0, status = StUnit 1 2 (JStr ''first'')\<rparr>,
     DeepReport AtUnitDone
     \<lparr>currentDepth = 1, totalDepth = 2, currentBreadth = 1, totalBreadth = 2,
     completedQueries = 1, totalQueries = 2, currentQuery = JStr ''first'',
     progress = 37, status = StUnit 1 2 (JStr ''first'')\<rparr>,
     DeepReport AtUnitStart
     \<lparr>currentDepth = 1, totalDepth = 2, currentBreadth = 2, totalBreadth = 2,
     completedQueries = 1, totalQueries = 2,
     currentQuery = JStr ''second'', progress = 37,
     status = StUnit 2 2 (JStr ''second'')\<rparr>,
     DeepReport AtUnitDone
     \<lparr>currentDepth = 1, totalDepth = 2, currentBreadth = 2, totalBreadth = 2,
     completedQueries = 2, totalQueries = 2,
     currentQuery = JStr ''second'', progress = 55,
     status = StUnit 2 2 (JStr ''second'')\<rparr>,
     Yield (ReasoningTrace (TrSearching (JStr ''first'') 1 2)),
     Yield (ReasoningTrace (TrGoal (JStr ''one''))),
     Yield (ReasoningTrace (TrFound 3 (JStr ''first''))),
     Yield (ReasoningTrace TrExtracting),
     Yield (ReasoningTrace (TrExtracted 2)),
     Yield (ReasoningTrace (TrFollowUps 1)),
     Yield (Learnings [JStr ''fact 1'', JStr ''fact 2'']),
     Yield (ReasoningTrace (TrSearching (JStr ''second'') 2 2)),
     Yield (ReasoningTrace (TrGoal (JStr ''two''))),
     Yield (ReasoningTrace (TrFound 3 (JStr ''second''))),
     Yield (ReasoningTrace TrExtracting),
     Yield (ReasoningTrace (TrExtracted 2)),
     Yield (ReasoningTrace (TrFollowUps 1)),
     Yield (Learnings [JStr ''fact 1'', JStr ''fact 2'']),
     DeepReport AtLevel
     \<lparr>currentDepth = 2, totalDepth = 2, currentBreadth = 2, totalBreadth = 2,
     completedQueries = 2, totalQueries = 2,
     currentQuery = JStr ''second'', progress = 55, status = StDepth 2 2\<rparr>,
     Yield (ReasoningTrace (TrLevel 2 2 2)),
     DeepReport AtNode
     \<lparr>currentDepth = 2, totalDepth = 2, currentBreadth = 2, totalBreadth = 2,
     completedQueries = 2, totalQueries = 2, currentQuery = JStr ''why'',
     progress = 55, status = StNode (JStr ''why'') 2 2\<rparr>,
     Yield (ReasoningTrace (TrSubQuestion (JStr ''why'') 1 2 2)),
     Yield (ReasoningTrace TrGenerating),
     Yield (ReasoningTrace (TrGenerated 2)),
     DeepReport AtUnitStart
     \<lparr>currentDepth = 2, totalDepth = 2, currentBreadth = 1, totalBreadth = 2,
     completedQueries = 2, totalQueries = 4, currentQuery = JStr ''first'',
     progress = 55, status = StUnit 1 2 (JStr ''first'')\<rparr>,
     DeepReport AtUnitDone
     \<lparr>currentDepth = 2, totalDepth = 2, currentBreadth = 1, totalBreadth = 2,
     completedQueries = 3, totalQueries = 4, currentQuery = JStr ''first'',
     progress = 81, status = StUnit 1 2 (JStr ''first'')\<rparr>,
     DeepReport AtUnitStart
     \<lparr>currentDepth = 2, totalDepth = 2, currentBreadth = 2, totalBreadth = 2,
     completedQueries = 3, totalQueries = 4,
     currentQuery = JStr ''second'', progress = 81,
     status = StUnit 2 2 (JStr ''second'')\<rparr>,
     DeepReport AtUnitDone
     \<lparr>currentDepth = 2, totalDepth = 2, currentBreadth = 2, totalBreadth = 2,
     completedQueries = 4, totalQueries = 4,
     currentQuery = JStr ''second'', progress = 90,
     status = StUnit 2 2 (JStr ''second'')\<rparr>,
     Yield (ReasoningTrace (TrSearching (JStr ''first'') 1 2)),
     Yield (ReasoningTrace (TrGoal (JStr ''one''))),
     Yield (ReasoningTrace (TrFound 3 (JStr ''first''))),
     Yield (ReasoningTrace TrExtracting),
     Yield (ReasoningTrace (TrExtracted 2)),
     Yield (Learnings [JStr ''fact 1'', JStr ''fact 2'']),
     Yield (ReasoningTrace (TrSearching (JStr ''second'') 2 2)),
     Yield (ReasoningTrace (TrGoal (JStr ''two''))),
     Yield (ReasoningTrace (TrFound 3 (JStr ''second''))),
     Yield (ReasoningTrace TrExtracting),
     Yield (ReasoningTrace (TrExtracted 2)),
     Yield (Learnings [JStr ''fact 1'', JStr ''fact 2'']),
     DeepReport AtFinal
     \<lparr>currentDepth = 2, totalDepth = 2, currentBreadth = 2, totalBreadth = 2,
     completedQueries = 4, totalQueries = 4,
     currentQuery = JStr ''second'', progress = 90,
     status = StFinalReport\<rparr>,
     Yield (Content (ModelText ''reply'')),
     DeepReport AtComplete
     \<lparr>currentDepth = 2, totalDepth = 2, currentBreadth = 2, totalBreadth = 2,
     completedQueries = 4, totalQueries = 4,
     currentQuery = JStr ''second'', progress = 100, status = StComplete\<rparr>]"
  by (simp add: run_defs deep_loop.simps overallProgress_examples env_up_def env_three_def
        env_down_def three_results_def two_by_two_def)

section \<open>The claims on deep research\<close>

text \<open>
  C4. For every options input, \<^verbatim>\<open>doDeepResearch\<close> runs with
  \<open>depth = min (max 1 options.depth) 5\<close> and \<open>breadth = min (max 2 options.breadth) 5\<close>:
  the run is the run of the loop with these two bounds, they lie in \<open>[1, 5]\<close> and
  \<open>[2, 5]\<close>, the first frame announces them, every progress report carries the clamped
  depth as its total depth, and no node is given more search queries than the clamped
  breadth.
\<close>

theorem depth_and_breadth_clamped:
  "doDeepResearch e query options =
     deep_run e query (min (max 1 (opt_depth options)) 5) (min (max 2 (opt_breadth options)) 5) \<and>
   1 \<le> min (max 1 (opt_depth options)) 5 \<and> min (max 1 (opt_depth options)) 5 \<le> 5 \<and>
   2 \<le> min (max 2 (opt_breadth options)) 5 \<and> min (max 2 (opt_breadth options)) 5 \<le> 5 \<and>
   hd (events (doDeepResearch e query options)) =
     Yield (ReasoningTrace (TrStart query (min (max 1 (opt_depth options)) 5)
                                          (min (max 2 (opt_breadth options)) 5))) \<and>
   totalDepth (progressData (doDeepResearch e query options)) = min (max 1 (opt_depth options)) 5 \<and>
   (\<forall>n. Yield (ReasoningTrace (TrGenerated n)) \<in> set (events (doDeepResearch e query options))
      \<longrightarrow> int n \<le> min (max 2 (opt_breadth options)) 5)"
proof -
  let ?D = "min (max 1 (opt_depth options)) 5" and ?B = "min (max 2 (opt_breadth options)) 5"
  have run: "doDeepResearch e query options = deep_run e query ?D ?B"
    by (simp add: doDeepResearch_def)
  have D: "1 \<le> ?D" and B: "1 \<le> ?B"
    by simp_all
  from deep_run_log [OF D B, of e query] obtain st pd1 r pd2 where
    inv: "log_inv ?D ?B st" and
    evs: "events (deep_run e query ?D ?B) =
            events st @ [DeepReport AtFinal pd1, Yield (Content r), DeepReport AtComplete pd2]" and
    pd: "progressData (deep_run e query ?D ?B) =
           (progressData st)\<lparr>status := StComplete, progress := 100\<rparr>"
    by blast
  from inv pd have total: "totalDepth (progressData (deep_run e query ?D ?B)) = ?D"
    by (simp add: log_inv_def)
  from inv have "list_all (event_ok ?D ?B) (events st)"
    by (simp add: log_inv_def)
  then have gen: "\<forall>n. Yield (ReasoningTrace (TrGenerated n)) \<in> set (events st) \<longrightarrow> int n \<le> ?B"
    by (auto simp: list_all_iff)
  with evs have "\<forall>n. Yield (ReasoningTrace (TrGenerated n)) \<in> set (events (deep_run e query ?D ?B))
      \<longrightarrow> int n \<le> ?B"
    by simp
  with run total deep_run_first_event [of e query ?D ?B] clamp_depth [of "opt_depth options"]
    clamp_breadth [of "opt_breadth options"]
  show ?thesis
    by simp
qed

theorem depth_and_breadth_clamped_witness:
  "hd (events (doDeepResearch env_down ''solar power'' \<lparr>opt_depth = 9, opt_breadth = 0\<rparr>)) =
     Yield (ReasoningTrace (TrStart ''solar power'' 5 2)) \<and>
   totalDepth (progressData (doDeepResearch env_down ''solar power''
                              \<lparr>opt_depth = 9, opt_breadth = 0\<rparr>)) = 5 \<and>
   Yield (ReasoningTrace (TrGenerated 2))
     \<in> set (events (doDeepResearch env_up ''solar power'' two_by_two)) \<and>
   int 2 \<le> min (max 2 (opt_breadth two_by_two)) 5"
proof -
  have "Yield (ReasoningTrace (TrGenerated 2))
      \<in> set (events (doDeepResearch env_up ''solar power'' two_by_two))"
    by (simp add: example_run_events)
  with depth_and_breadth_clamped [of env_up "''solar power''" two_by_two]
  have "int 2 \<le> min (max 2 (opt_breadth two_by_two)) 5"
    by blast
  moreover have "hd (events (doDeepResearch env_down ''solar power''
                              \<lparr>opt_depth = 9, opt_breadth = 0\<rparr>)) =
        Yield (ReasoningTrace (TrStart ''solar power'' 5 2)) \<and>
      totalDepth (progressData (doDeepResearch env_down ''solar power''
                                  \<lparr>opt_depth = 9, opt_breadth = 0\<rparr>)) = 5"
    using depth_and_breadth_clamped [of env_down "''solar power''"
        "\<lparr>opt_depth = 9, opt_breadth = 0\<rparr>"]
    by auto
  ultimately show ?thesis
    using \<open>Yield (ReasoningTrace (TrGenerated 2))
      \<in> set (events (doDeepResearch env_up ''solar power'' two_by_two))\<close>
    by blast
qed

text \<open>
  C3. Processing a node at depth \<open>cd\<close> appends to the queue only follow-ups of depth
  \<open>cd + 1\<close>, and none when \<open>cd\<close> has reached the depth bound. In a run, every node
  that is processed (announced by the frame ``Researching sub-question \<open>\<dots>\<close> at depth
  \<open>d\<close>'') has a depth between 1 and the clamped bound.
\<close>

theorem follow_ups_one_level_deeper:
  "(\<exists>fs. queriesToProcess (process_node e depth breadth cd n i nd st) = queriesToProcess st @ fs \<and>
         (\<forall>f \<in> set fs. node_depth f = cd + 1) \<and> (depth \<le> cd \<longrightarrow> fs = [])) \<and>
   (\<forall>q j m d. Yield (ReasoningTrace (TrSubQuestion q j m d))
                 \<in> set (events (doDeepResearch e query options))
      \<longrightarrow> 1 \<le> d \<and> d \<le> min (max 1 (opt_depth options)) 5)"
proof -
  let ?D = "min (max 1 (opt_depth options)) 5" and ?B = "min (max 2 (opt_breadth options)) 5"
  from process_node_queue [of e depth breadth cd n i nd st] obtain fs where
    "queriesToProcess (process_node e depth breadth cd n i nd st) = queriesToProcess st @ fs"
    "list_all (\<lambda>f. node_depth f = cd + 1) fs" "fs = [] \<or> cd < depth"
    by blast
  then have node: "\<exists>fs. queriesToProcess (process_node e depth breadth cd n i nd st) =
        queriesToProcess st @ fs \<and>
      (\<forall>f \<in> set fs. node_depth f = cd + 1) \<and> (depth \<le> cd \<longrightarrow> fs = [])"
    by (auto simp: list_all_iff)
  have D: "1 \<le> ?D" and B: "1 \<le> ?B"
    by simp_all
  from deep_run_log [OF D B, of e query] obtain st' pd1 r pd2 where
    inv: "log_inv ?D ?B st'" and
    evs: "events (deep_run e query ?D ?B) =
            events st' @ [DeepReport AtFinal pd1, Yield (Content r), DeepReport AtComplete pd2]"
    by blast
  from inv have ok: "list_all (event_ok ?D ?B) (events st')"
    by (simp add: log_inv_def)
  have "1 \<le> d \<and> d \<le> ?D"
    if "Yield (ReasoningTrace (TrSubQuestion q j m d)) \<in> set (events (doDeepResearch e query options))"
    for q j m d
  proof -
    from that evs have "Yield (ReasoningTrace (TrSubQuestion q j m d)) \<in> set (events st')"
      by (simp add: doDeepResearch_def)
    with ok show ?thesis
      by (rule event_ok_sub_question)
  qed
  with node show ?thesis
    by blast
qed

theorem follow_ups_one_level_deeper_witness:
  "queriesToProcess (process_node env_up 2 2 1 1 0 \<lparr>node_query = JStr ''solar power'', node_depth = 1\<rparr>
      ((initial_deep_state ''solar power'' 2 2)\<lparr>queriesToProcess := []\<rparr>)) =
     [\<lparr>node_query = JStr ''why'', node_depth = 2\<rparr>, \<lparr>node_query = JStr ''why'', node_depth = 2\<rparr>] \<and>
   queriesToProcess (process_node env_up 2 2 2 1 0 \<lparr>node_query = JStr ''why'', node_depth = 2\<rparr>
      ((initial_deep_state ''solar power'' 2 2)\<lparr>queriesToProcess := []\<rparr>)) = [] \<and>
   Yield (ReasoningTrace (TrSubQuestion (JStr ''why'') 1 2 2))
     \<in> set (events (doDeepResearch env_up ''solar power'' two_by_two)) \<and>
   (1::int) \<le> 2 \<and> 2 \<le> min (max 1 (opt_depth two_by_two)) 5"
proof -
  have sub: "Yield (ReasoningTrace (TrSubQuestion (JStr ''why'') 1 2 2))
      \<in> set (events (doDeepResearch env_up ''solar power'' two_by_two))"
    by (simp add: example_run_events)
  have "(1::int) \<le> 2 \<and> 2 \<le> min (max 1 (opt_depth two_by_two)) 5"
    using follow_ups_one_level_deeper [of env_up 2 2 1 1 0
        "\<lparr>node_query = JStr ''solar power'', node_depth = 1\<rparr>"
        "(initial_deep_state ''solar power'' 2 2)\<lparr>queriesToProcess := []\<rparr>"
        "''solar power''" two_by_two] sub
    by blast
  moreover have "queriesToProcess (process_node env_up 2 2 1 1 0
        \<lparr>node_query = JStr ''solar power'', node_depth = 1\<rparr>
        ((initial_deep_state ''solar power'' 2 2)\<lparr>queriesToProcess := []\<rparr>)) =
     [\<lparr>node_query = JStr ''why'', node_depth = 2\<rparr>, \<lparr>node_query = JStr ''why'', node_depth = 2\<rparr>]"
    by (simp add: run_defs env_up_def env_three_def env_down_def three_results_def)
  moreover have "queriesToProcess (process_node env_up 2 2 2 1 0
        \<lparr>node_query = JStr ''why'', node_depth = 2\<rparr>
        ((initial_deep_state ''solar power'' 2 2)\<lparr>queriesToProcess := []\<rparr>)) = []"
    using follow_ups_one_level_deeper [of env_up 2 2 2 1 0
        "\<lparr>node_query = JStr ''why'', node_depth = 2\<rparr>"
        "(initial_deep_state ''solar power'' 2 2)\<lparr>queriesToProcess := []\<rparr>"
        "''solar power''" two_by_two]
    by (auto simp: initial_deep_state_def)
  ultimately show ?thesis
    using sub by simp
qed



section \<open>The claims on the stream of a run\<close>




















end
